theory Spec2Isabelle
  imports Complex_Main
begin

section \<open>Solver data shared by every selection strategy\<close>

text \<open>
  The strategies of \<^verbatim>\<open>_variants.py\<close> are subclasses of \<^verbatim>\<open>kaczmarz.Base\<close>.  The base
  class itself is not part of the file; what the strategies read from it are the
  attributes below, which are therefore fields of a record that every strategy extends.
  Python exceptions are values of \<open>exn\<close>; a method that can raise returns \<open>exn + 'a\<close>.
\<close>

datatype exn = ValueError | IndexError | KeyError | ZeroDivisionError

fun and_then :: "exn + 'a \<Rightarrow> ('a \<Rightarrow> exn + 'b) \<Rightarrow> exn + 'b" where
  "and_then (Inl e) f = Inl e"
| "and_then (Inr v) f = f v"

record Base =
  self_A :: "real list list"
  self_b :: "real list"
  self_x0 :: "real list"
  self_xk :: "real list"
  self_n_rows :: nat
  self_row_norms :: "real list"

text \<open>
  Modelled from the spec: the shape invariant of the linear system that the absent base
  class establishes (\<^verbatim>\<open>m == len(b) == A.row_count\<close>, one row norm per row, iterates of
  the column dimension).  It is only ever used as a hypothesis.
\<close>

definition Base_shapes :: "'a Base_scheme \<Rightarrow> bool" where
  "Base_shapes self \<longleftrightarrow>
     length (self_A self) = self_n_rows self \<and>
     length (self_b self) = self_n_rows self \<and>
     length (self_row_norms self) = self_n_rows self \<and>
     list_all (\<lambda>row. length row = length (self_x0 self)) (self_A self) \<and>
     length (self_xk self) = length (self_x0 self)"

text \<open>The reserved index \<^verbatim>\<open>-1\<close> by which a strategy asks for no projection.\<close>

definition SKIP :: int where
  "SKIP = - 1"

section \<open>The numerics the strategies call\<close>

text \<open>
  Floating point numbers are idealised as real numbers, so rounding is not modelled.  The
  special values that the strategies create themselves, \<^verbatim>\<open>float("inf")\<close> as the initial
  best score of the lookahead search and the quotient by a zero sum in the sampling
  weights, are kept: \<open>npfloat\<close> adds them to the reals, with the comparisons and the
  division of IEEE arithmetic.
\<close>

datatype npfloat = Num real | PosInf | NegInf | NaN

fun float_lt :: "npfloat \<Rightarrow> npfloat \<Rightarrow> bool" where
  "float_lt (Num x) (Num y) = (x < y)"
| "float_lt (Num x) PosInf = True"
| "float_lt NegInf (Num y) = True"
| "float_lt NegInf PosInf = True"
| "float_lt _ _ = False"

fun float_eq :: "npfloat \<Rightarrow> npfloat \<Rightarrow> bool" where
  "float_eq NaN _ = False"
| "float_eq _ NaN = False"
| "float_eq x y = (x = y)"

definition np_divide :: "real \<Rightarrow> real \<Rightarrow> npfloat" where
  "np_divide x y =
     (if y \<noteq> 0 then Num (x / y)
      else if x = 0 then NaN
      else if 0 < x then PosInf
      else NegInf)"

text \<open>
  Comparison of two pairs as Python compares tuples: the first position whose entries
  are not equal decides; equal tuples are not less.
\<close>

fun tuple_lt :: "npfloat \<times> npfloat \<Rightarrow> npfloat \<times> npfloat \<Rightarrow> bool" where
  "tuple_lt (a1, a2) (b1, b2) =
     (if \<not> float_eq a1 b1 then float_lt a1 b1
      else if \<not> float_eq a2 b2 then float_lt a2 b2
      else False)"

text \<open>
  Indexing a one-dimensional array or the rows of a matrix with an integer: a negative
  index counts from the end, an index out of range raises.
\<close>

definition np_index :: "'a list \<Rightarrow> int \<Rightarrow> exn + 'a" where
  "np_index xs i =
     (if 0 \<le> i \<and> i < int (length xs) then Inr (xs ! nat i)
      else if - int (length xs) \<le> i \<and> i < 0 then Inr (xs ! nat (int (length xs) + i))
      else Inl IndexError)"

definition row_dot :: "real list \<Rightarrow> real list \<Rightarrow> real" where
  "row_dot a x = sum_list (map2 (*) a x)"

text \<open>\<^verbatim>\<open>a @ x\<close> for two vectors, and \<^verbatim>\<open>A @ x\<close> for a matrix (a list of rows) and a vector.\<close>

definition dot :: "real list \<Rightarrow> real list \<Rightarrow> exn + real" where
  "dot a x = (if length a = length x then Inr (row_dot a x) else Inl ValueError)"

definition matvec :: "real list list \<Rightarrow> real list \<Rightarrow> exn + real list" where
  "matvec A x =
     (if list_all (\<lambda>row. length row = length x) A then Inr (map (\<lambda>row. row_dot row x) A)
      else Inl ValueError)"

text \<open>Subtraction of two vectors; a vector of length one is broadcast.\<close>

definition np_sub :: "real list \<Rightarrow> real list \<Rightarrow> exn + real list" where
  "np_sub u v =
     (if length u = length v then Inr (map2 (-) u v)
      else if length u = 1 then Inr (map (\<lambda>y. hd u - y) v)
      else if length v = 1 then Inr (map (\<lambda>x. x - hd v) u)
      else Inl ValueError)"

definition np_abs :: "real list \<Rightarrow> real list" where
  "np_abs v = map abs v"

text \<open>
  \<^verbatim>\<open>np.argmax\<close>: one pass that keeps the largest entry seen so far and its position and
  replaces them only by a strictly larger entry; the empty array raises.
\<close>

fun argmax_loop :: "real list \<Rightarrow> nat \<Rightarrow> real \<Rightarrow> nat \<Rightarrow> nat" where
  "argmax_loop [] i mp max_ind = max_ind"
| "argmax_loop (x # xs) i mp max_ind =
     (if mp < x then argmax_loop xs (Suc i) x i else argmax_loop xs (Suc i) mp max_ind)"

definition np_argmax :: "real list \<Rightarrow> exn + nat" where
  "np_argmax v = (case v of [] \<Rightarrow> Inl ValueError | x # xs \<Rightarrow> Inr (argmax_loop xs 1 x 0))"

definition np_norm :: "real list \<Rightarrow> real" where
  "np_norm v = sqrt (sum_list (map (\<lambda>x. x * x) v))"

text \<open>
  \<^verbatim>\<open>np.quantile(a, q)\<close> with the default linear interpolation: the array is sorted, the
  virtual index \<open>(n - 1) * q\<close> is split into its floor and the fraction \<open>gamma\<close>, and the two
  neighbouring order statistics are interpolated.  At or above the last index both
  neighbours are the last entry.  A \<open>q\<close> outside \<open>[0, 1]\<close> raises; an empty array has no
  quantile (numpy raises in its index arithmetic).
\<close>

definition lerp :: "real \<Rightarrow> real \<Rightarrow> real \<Rightarrow> real" where
  "lerp a b t = (if 1 / 2 \<le> t then b - (b - a) * (1 - t) else a + (b - a) * t)"

definition np_quantile :: "real list \<Rightarrow> real \<Rightarrow> exn + real" where
  "np_quantile a q =
     (if q < 0 \<or> 1 < q then Inl ValueError
      else if a = [] then Inl IndexError
      else
        let arr = sort a;
            n = length arr;
            virtual_index = real (n - 1) * q;
            above = (real (n - 1) \<le> virtual_index);
            previous_index = (if above then n - 1 else nat \<lfloor>virtual_index\<rfloor>);
            next_index = (if above then n - 1 else previous_index + 1);
            gamma = virtual_index - real previous_index
        in Inr (lerp (arr ! previous_index) (arr ! next_index) gamma))"

text \<open>\<^verbatim>\<open>np.isclose(a, b)\<close> with its default tolerances \<^verbatim>\<open>rtol=1e-05\<close>, \<^verbatim>\<open>atol=1e-08\<close>.\<close>

definition np_isclose :: "real \<Rightarrow> real \<Rightarrow> bool" where
  "np_isclose a b \<longleftrightarrow> \<bar>a - b\<bar> \<le> 1 / 10 ^ 8 + 1 / 10 ^ 5 * \<bar>b\<bar>"

text \<open>\<^verbatim>\<open>np.argwhere(v)\<close> flattened: the positions of the non-zero entries, ascending.\<close>

definition np_argwhere :: "real list \<Rightarrow> nat list" where
  "np_argwhere v = filter (\<lambda>j. v ! j \<noteq> 0) [0..<length v]"

text \<open>
  \<^verbatim>\<open>np.union1d\<close> concatenates, sorts and drops repeated neighbours; \<^verbatim>\<open>np.setdiff1d\<close> with
  \<^verbatim>\<open>assume_unique=True\<close> keeps the entries of the first array that are not in the second.
\<close>

definition np_union1d :: "nat list \<Rightarrow> nat list \<Rightarrow> nat list" where
  "np_union1d ar1 ar2 = remdups_adj (sort (ar1 @ ar2))"

definition np_setdiff1d :: "nat list \<Rightarrow> nat list \<Rightarrow> nat list" where
  "np_setdiff1d ar1 ar2 = filter (\<lambda>x. x \<notin> set ar2) ar1"

text \<open>\<^verbatim>\<open>p[idxs]\<close>: the entries of \<open>p\<close> at a list of positions.\<close>

fun np_take :: "'a list \<Rightarrow> nat list \<Rightarrow> exn + 'a list" where
  "np_take p [] = Inr []"
| "np_take p (i # idxs) =
     (if i < length p then and_then (np_take p idxs) (\<lambda>rest. Inr (p ! i # rest))
      else Inl IndexError)"

text \<open>
  \<^verbatim>\<open>self._b - self._A @ x\<close>, the residual of the system at \<open>x\<close>, as three strategies
  compute it.
\<close>

definition residual_at :: "'a Base_scheme \<Rightarrow> real list \<Rightarrow> exn + real list" where
  "residual_at self x = and_then (matvec (self_A self) x) (\<lambda>Ax. np_sub (self_b self) Ax)"

text \<open>The residual of row \<open>j\<close> at \<open>x\<close>, \<open>b[j] - A[j]\<cdot>x\<close>, as the properties below speak of it.\<close>

definition row_residual :: "'a Base_scheme \<Rightarrow> real list \<Rightarrow> nat \<Rightarrow> real" where
  "row_residual self x j = self_b self ! j - row_dot (self_A self ! j) x"

section \<open>Cyclic\<close>

record Cyclic = Base +
  self_row_index :: int

definition Cyclic_init :: "Base \<Rightarrow> Cyclic" where
  "Cyclic_init base = Base.extend base (Cyclic.fields (- 1))"

text \<open>
  \<^verbatim>\<open>self._row_index = (1 + self._row_index) % self._n_rows; return self._row_index\<close>.
  Python's \<^verbatim>\<open>%\<close> on integers raises on a zero modulus; for a positive modulus it agrees
  with \<open>mod\<close> on \<open>int\<close>.  The argument \<open>xk\<close> is not read.
\<close>

definition Cyclic_select_row_index :: "Cyclic \<Rightarrow> real list \<Rightarrow> exn + (int \<times> Cyclic)" where
  "Cyclic_select_row_index self xk =
     (if self_n_rows self = 0 then Inl ZeroDivisionError
      else let self' = self\<lparr>self_row_index := (1 + self_row_index self) mod int (self_n_rows self)\<rparr>
           in Inr (self_row_index self', self'))"

text \<open>
  The solver calls the strategy once per iteration, each time with the current iterate.
  \<open>Cyclic_calls\<close> performs one call per element of the list of iterates and collects the
  returned indices; an exception ends the run.
\<close>

fun Cyclic_calls :: "Cyclic \<Rightarrow> real list list \<Rightarrow> exn + (int list \<times> Cyclic)" where
  "Cyclic_calls self [] = Inr ([], self)"
| "Cyclic_calls self (xk # xks) =
     (case Cyclic_select_row_index self xk of
        Inl e \<Rightarrow> Inl e
      | Inr (i, self') \<Rightarrow>
          (case Cyclic_calls self' xks of
             Inl e \<Rightarrow> Inl e
           | Inr (js, self'') \<Rightarrow> Inr (i # js, self'')))"

section \<open>MaxDistance\<close>

text \<open>
  \<^verbatim>\<open>residual = self._b - self._A @ self._xk; return np.argmax(np.abs(residual))\<close>.
  The residual is taken at the stored iterate \<^verbatim>\<open>self._xk\<close>; the argument \<open>xk\<close> is not read.
\<close>

definition MaxDistance_select_row_index :: "'a Base_scheme \<Rightarrow> real list \<Rightarrow> exn + int" where
  "MaxDistance_select_row_index self xk =
     and_then (residual_at self (self_xk self)) (\<lambda>residual.
     and_then (np_argmax (np_abs residual)) (\<lambda>i. Inr (int i)))"

section \<open>Lookahead\<close>

record Lookahead = Base +
  self_next_i :: "int option"

definition Lookahead_init :: "Base \<Rightarrow> Lookahead" where
  "Lookahead_init base = Base.extend base (Lookahead.fields None)"

text \<open>
  The body of the search loop for one candidate row \<open>ik\<close>, up to the comparison: the
  greedy continuation \<open>ik2\<close> and the pair \<open>residual_norms\<close>.  The projection step
  \<^verbatim>\<open>self._update_iterate\<close> belongs to the absent base class and is the parameter
  \<open>update_iterate\<close>.
\<close>

definition Lookahead_candidate ::
  "(real list \<Rightarrow> nat \<Rightarrow> exn + real list) \<Rightarrow> 'a Base_scheme \<Rightarrow> nat \<Rightarrow> exn + (nat \<times> (npfloat \<times> npfloat))" where
  "Lookahead_candidate update_iterate self ik =
     and_then (update_iterate (self_xk self) ik) (\<lambda>next_xk.
     and_then (residual_at self next_xk) (\<lambda>residual.
     and_then (np_argmax (np_abs residual)) (\<lambda>ik2.
     and_then (update_iterate next_xk ik2) (\<lambda>next_next_xk.
     and_then (residual_at self next_next_xk) (\<lambda>next_residual.
       Inr (ik2, (Num (np_norm next_residual), Num (np_norm residual))))))))"

text \<open>
  The loop over \<^verbatim>\<open>range(self._n_rows)\<close>; its state is
  \<open>(best_i, self._next_i, best_residual_norms)\<close>.
\<close>

fun Lookahead_loop ::
  "(real list \<Rightarrow> nat \<Rightarrow> exn + real list) \<Rightarrow> 'a Base_scheme \<Rightarrow> nat list \<Rightarrow>
     int \<times> int \<times> (npfloat \<times> npfloat) \<Rightarrow> exn + (int \<times> int \<times> (npfloat \<times> npfloat))" where
  "Lookahead_loop update_iterate self [] st = Inr st"
| "Lookahead_loop update_iterate self (ik # iks) (best_i, next_i, best_residual_norms) =
     and_then (Lookahead_candidate update_iterate self ik) (\<lambda>(ik2, residual_norms).
       if tuple_lt residual_norms best_residual_norms
       then Lookahead_loop update_iterate self iks (int ik, int ik2, residual_norms)
       else Lookahead_loop update_iterate self iks (best_i, next_i, best_residual_norms))"

definition Lookahead_select_row_index ::
  "(real list \<Rightarrow> nat \<Rightarrow> exn + real list) \<Rightarrow> Lookahead \<Rightarrow> real list \<Rightarrow> exn + (int \<times> Lookahead)" where
  "Lookahead_select_row_index update_iterate self xk =
     (case self_next_i self of
        Some temp \<Rightarrow> Inr (temp, self\<lparr>self_next_i := None\<rparr>)
      | None \<Rightarrow>
          and_then (Lookahead_loop update_iterate self [0..<self_n_rows self] (- 1, - 1, (PosInf, PosInf)))
            (\<lambda>(best_i, next_i, best_residual_norms). Inr (best_i, self\<lparr>self_next_i := Some next_i\<rparr>)))"

text \<open>
  Modelled from the spec: the projection step of the absent base class, which
  ``returns the unique point obtained by orthogonally projecting \<open>x\<close> onto the hyperplane
  \<open>A[i]\<cdot>x = b[i]\<close>''.  A row without a hyperplane (a zero row) has no such point.  It is used
  only to instantiate the parameter \<open>update_iterate\<close> on a concrete system.
\<close>

definition update_iterate :: "'a Base_scheme \<Rightarrow> real list \<Rightarrow> nat \<Rightarrow> exn + real list" where
  "update_iterate self x i =
     and_then (np_index (self_A self) (int i)) (\<lambda>ai.
     and_then (np_index (self_b self) (int i)) (\<lambda>bi.
     and_then (dot ai x) (\<lambda>aix.
       if row_dot ai ai = 0 then Inl ZeroDivisionError
       else Inr (map2 (\<lambda>xj aij. xj + (bi - aix) / row_dot ai ai * aij) x ai))))"

text \<open>
  For the properties of the search, in the words of the two-step lookahead: \<open>i2\<close> is the
  greedy continuation of row \<open>i\<close>, the first row of largest residual magnitude after
  projecting the stored iterate onto row \<open>i\<close>; \<open>norm_one\<close> is the Euclidean norm of the
  residual after that projection and \<open>norm_two\<close> the norm after also projecting onto \<open>i2\<close>.
\<close>

definition two_step_lookahead ::
  "(real list \<Rightarrow> nat \<Rightarrow> exn + real list) \<Rightarrow> 'a Base_scheme \<Rightarrow> nat \<Rightarrow> nat \<Rightarrow> real \<Rightarrow> real \<Rightarrow> bool" where
  "two_step_lookahead upd self i i2 norm_two norm_one \<longleftrightarrow>
     (\<exists>x1 x2.
        upd (self_xk self) i = Inr x1
      \<and> i2 < self_n_rows self
      \<and> (\<forall>j<self_n_rows self. \<bar>row_residual self x1 j\<bar> \<le> \<bar>row_residual self x1 i2\<bar>)
      \<and> (\<forall>j<i2. \<bar>row_residual self x1 j\<bar> < \<bar>row_residual self x1 i2\<bar>)
      \<and> upd x1 i2 = Inr x2
      \<and> norm_one = sqrt (\<Sum>j\<leftarrow>[0..<self_n_rows self]. (row_residual self x1 j)\<^sup>2)
      \<and> norm_two = sqrt (\<Sum>j\<leftarrow>[0..<self_n_rows self]. (row_residual self x2 j)\<^sup>2))"

section \<open>Random and SVRandom\<close>

text \<open>
  \<open>self_p = None\<close> is the uniform distribution.  \<^verbatim>\<open>Random._select_row_index\<close> is the single
  call \<^verbatim>\<open>np.random.choice(self._n_rows, p=self._p)\<close>: its outcome is not a function of the
  state, so the strategies built on it take the drawn index as an argument.
\<close>

record Random = Base +
  self_p :: "npfloat list option"

definition Random_init :: "Base \<Rightarrow> npfloat list option \<Rightarrow> Random" where
  "Random_init base p = Base.extend base (Random.fields p)"

text \<open>
  \<^verbatim>\<open>squared_row_norms = self._row_norms ** 2\<close>,
  \<^verbatim>\<open>self._p = squared_row_norms / squared_row_norms.sum()\<close>.  Neither line raises.
\<close>

definition SVRandom_init :: "Base \<Rightarrow> Random" where
  "SVRandom_init base =
     (let self = Random_init base None;
          squared_row_norms = map (\<lambda>r. r ^ 2) (self_row_norms self)
      in self\<lparr>self_p := Some (map (\<lambda>s. np_divide s (sum_list squared_row_norms)) squared_row_norms)\<rparr>)"

section \<open>Quantile\<close>

record Quantile = Random +
  self_quantile :: real

text \<open>The keyword argument \<^verbatim>\<open>quantile=1.0\<close>: \<open>None\<close> stands for the argument left out.\<close>

definition Quantile_init :: "Base \<Rightarrow> npfloat list option \<Rightarrow> real option \<Rightarrow> Quantile" where
  "Quantile_init base p quantile =
     Random.extend (Random_init base p)
       (Quantile.fields (case quantile of None \<Rightarrow> 1 | Some q \<Rightarrow> q))"

text \<open>\<^verbatim>\<open>np.abs(self._b[ik] - self._A[ik] @ xk)\<close>\<close>

definition Quantile_distance :: "'a Base_scheme \<Rightarrow> real list \<Rightarrow> int \<Rightarrow> exn + real" where
  "Quantile_distance self xk ik =
     and_then (np_index (self_b self) ik) (\<lambda>bi.
     and_then (np_index (self_A self) ik) (\<lambda>ai.
     and_then (dot ai xk) (\<lambda>aix. Inr \<bar>bi - aix\<bar>)))"

text \<open>\<^verbatim>\<open>np.abs(self._b - self._A @ xk)\<close>\<close>

definition Quantile_threshold_distances :: "'a Base_scheme \<Rightarrow> real list \<Rightarrow> exn + real list" where
  "Quantile_threshold_distances self xk = and_then (residual_at self xk) (\<lambda>r. Inr (np_abs r))"

definition Quantile_threshold :: "'a Quantile_scheme \<Rightarrow> real list \<Rightarrow> exn + real" where
  "Quantile_threshold self xk =
     and_then (Quantile_threshold_distances self xk) (\<lambda>distances.
       np_quantile distances (self_quantile self))"

text \<open>
  \<open>ik\<close> is the index that \<^verbatim>\<open>super()._select_row_index(xk)\<close>, the wrapped Random strategy,
  has drawn.  The result \<open>- 1\<close> is \<^verbatim>\<open>return -1  # No projection please\<close>.
\<close>

definition Quantile_select_row_index :: "'a Quantile_scheme \<Rightarrow> real list \<Rightarrow> int \<Rightarrow> exn + int" where
  "Quantile_select_row_index self xk ik =
     and_then (Quantile_distance self xk ik) (\<lambda>distance.
     and_then (Quantile_threshold self xk) (\<lambda>threshold.
       if distance < threshold \<or> np_isclose distance threshold then Inr ik else Inr (- 1)))"

text \<open>
  For the properties of the rejection test: the minimum residual distance over all rows
  at the iterate \<open>xk\<close>.
\<close>

definition min_row_distance :: "'a Base_scheme \<Rightarrow> real list \<Rightarrow> real" where
  "min_row_distance self xk = Min ((\<lambda>j. \<bar>row_residual self xk j\<bar>) ` {0..<self_n_rows self})"

section \<open>WindowedQuantile\<close>

text \<open>
  \<^verbatim>\<open>deque([], maxlen=window_size)\<close>: appending to a full deque discards the oldest item
  (the item is added on the right and the deque is trimmed on the left while it is
  longer than \<open>maxlen\<close>); a negative \<open>maxlen\<close> is refused when the deque is created.
\<close>

record deque =
  items :: "real list"
  maxlen :: nat

definition deque_new :: "int \<Rightarrow> exn + deque" where
  "deque_new n = (if n < 0 then Inl ValueError else Inr \<lparr>items = [], maxlen = nat n\<rparr>)"

definition deque_append :: "deque \<Rightarrow> real \<Rightarrow> deque" where
  "deque_append d x =
     (let ys = items d @ [x]
      in d\<lparr>items := (if maxlen d < length ys then tl ys else ys)\<rparr>)"

record WindowedQuantile = Quantile +
  self_window :: deque

definition WindowedQuantile_init ::
  "Base \<Rightarrow> npfloat list option \<Rightarrow> real option \<Rightarrow> int option \<Rightarrow> exn + WindowedQuantile" where
  "WindowedQuantile_init base p quantile window_size =
     (let self = Quantile_init base p quantile;
          window_size = (case window_size of None \<Rightarrow> int (self_n_rows self) | Some w \<Rightarrow> w)
      in and_then (deque_new window_size) (\<lambda>d.
           Inr (Quantile.extend self (WindowedQuantile.fields d))))"

text \<open>
  The overriding \<^verbatim>\<open>_distance\<close> appends the distance to the window;
  the overriding \<^verbatim>\<open>_threshold_distances\<close> returns the window.  \<^verbatim>\<open>_threshold\<close> and
  \<^verbatim>\<open>_select_row_index\<close> are inherited from Quantile and call the overriding methods.
\<close>

definition WindowedQuantile_distance ::
  "WindowedQuantile \<Rightarrow> real list \<Rightarrow> int \<Rightarrow> exn + (real \<times> WindowedQuantile)" where
  "WindowedQuantile_distance self xk ik =
     and_then (Quantile_distance self xk ik) (\<lambda>distance.
       Inr (distance, self\<lparr>self_window := deque_append (self_window self) distance\<rparr>))"

definition WindowedQuantile_threshold_distances :: "WindowedQuantile \<Rightarrow> real list \<Rightarrow> real list" where
  "WindowedQuantile_threshold_distances self xk = items (self_window self)"

definition WindowedQuantile_threshold :: "WindowedQuantile \<Rightarrow> real list \<Rightarrow> exn + real" where
  "WindowedQuantile_threshold self xk =
     np_quantile (WindowedQuantile_threshold_distances self xk) (self_quantile self)"

definition WindowedQuantile_select_row_index ::
  "WindowedQuantile \<Rightarrow> real list \<Rightarrow> int \<Rightarrow> exn + (int \<times> WindowedQuantile)" where
  "WindowedQuantile_select_row_index self xk ik =
     and_then (WindowedQuantile_distance self xk ik) (\<lambda>(distance, self').
     and_then (WindowedQuantile_threshold self' xk) (\<lambda>threshold.
       if distance < threshold \<or> np_isclose distance threshold then Inr (ik, self')
       else Inr (- 1, self')))"

text \<open>
  One call per pair of an iterate and the index drawn for it, collecting what each call
  returns.
\<close>

fun WindowedQuantile_calls ::
  "WindowedQuantile \<Rightarrow> (real list \<times> int) list \<Rightarrow> exn + (int list \<times> WindowedQuantile)" where
  "WindowedQuantile_calls self [] = Inr ([], self)"
| "WindowedQuantile_calls self ((xk, ik) # rest) =
     and_then (WindowedQuantile_select_row_index self xk ik) (\<lambda>(r, self').
     and_then (WindowedQuantile_calls self' rest) (\<lambda>(rs, self'').
       Inr (r # rs, self'')))"

text \<open>
  For the properties of the window: the distances \<open>|b[ik] - A[ik]\<cdot>xk|\<close> of a sequence of
  calls, in call order, and the most recent \<open>w\<close> entries of a list.
\<close>

definition call_distances :: "'a Base_scheme \<Rightarrow> (real list \<times> int) list \<Rightarrow> real list" where
  "call_distances self calls = map (\<lambda>(xk, ik). \<bar>row_residual self xk (nat ik)\<bar>) calls"

definition most_recent :: "nat \<Rightarrow> 'a list \<Rightarrow> 'a list" where
  "most_recent w xs = drop (length xs - w) xs"

section \<open>RandomOrthoGraph\<close>

record RandomOrthoGraph = Base +
  self_ortho_graph :: "real list list"
  self_i_to_newly_selectable :: "nat \<rightharpoonup> nat list"
  self_selectable :: "nat list"
  self_weights :: "real list"

text \<open>\<^verbatim>\<open>self._A @ self._A.T\<close>; the rows of a matrix have one length.\<close>

definition ortho_graph_of :: "real list list \<Rightarrow> exn + real list list" where
  "ortho_graph_of A =
     (if list_all (\<lambda>row. length row = length (hd A)) A
      then Inr (map (\<lambda>ri. map (\<lambda>rj. row_dot ri rj) A) A)
      else Inl ValueError)"

text \<open>\<^verbatim>\<open>np.argwhere(self._ortho_graph[i, :])\<close>\<close>

definition newly_selectable :: "real list list \<Rightarrow> nat \<Rightarrow> exn + nat list" where
  "newly_selectable G i = and_then (np_index G (int i)) (\<lambda>row. Inr (np_argwhere row))"

text \<open>The dictionary comprehension \<^verbatim>\<open>{i: self._newly_selectable(i) for i in range(n)}\<close>.\<close>

fun newly_selectable_dict :: "real list list \<Rightarrow> nat list \<Rightarrow> exn + (nat \<rightharpoonup> nat list)" where
  "newly_selectable_dict G [] = Inr Map.empty"
| "newly_selectable_dict G (i # rest) =
     and_then (newly_selectable G i) (\<lambda>v.
     and_then (newly_selectable_dict G rest) (\<lambda>d.
       Inr (d(i \<mapsto> v))))"

text \<open>
  The field \<open>self_weights\<close> is the attribute \<^verbatim>\<open>self._p\<close> of this class: weights over all
  rows, \<^verbatim>\<open>np.ones\<close> when the argument \<open>p\<close> is left out.
\<close>

definition RandomOrthoGraph_init :: "Base \<Rightarrow> real list option \<Rightarrow> exn + RandomOrthoGraph" where
  "RandomOrthoGraph_init base p =
     and_then (ortho_graph_of (self_A base)) (\<lambda>G.
     and_then (newly_selectable_dict G [0..<self_n_rows base]) (\<lambda>d.
     and_then (matvec (self_A base) (self_x0 base)) (\<lambda>Ax0.
     and_then (np_sub Ax0 (self_b base)) (\<lambda>r.
       Inr (Base.extend base
              (RandomOrthoGraph.fields G d (np_argwhere r)
                 (case p of None \<Rightarrow> replicate (self_n_rows base) 1 | Some w \<Rightarrow> w)))))))"

definition RandomOrthoGraph_update_selectable :: "RandomOrthoGraph \<Rightarrow> nat \<Rightarrow> exn + RandomOrthoGraph" where
  "RandomOrthoGraph_update_selectable self ik =
     (case self_i_to_newly_selectable self ik of
        None \<Rightarrow> Inl KeyError
      | Some newly \<Rightarrow>
          let selectable_with_ik = np_union1d (self_selectable self) newly
          in Inr (self\<lparr>self_selectable := np_setdiff1d selectable_with_ik [ik]\<rparr>))"

text \<open>
  \<^verbatim>\<open>np.random.choice(self._selectable, p=p)\<close> refuses an empty population and weights
  that are not a distribution; otherwise it returns a member of \<open>self._selectable\<close>, which
  is the argument \<open>ik\<close> here.  A quotient by a zero sum of weights is not a probability.
\<close>

definition choice_refuses :: "nat list \<Rightarrow> npfloat list \<Rightarrow> bool" where
  "choice_refuses a p \<longleftrightarrow>
     a = [] \<or> length p \<noteq> length a \<or>
     list_ex (\<lambda>v. case v of Num x \<Rightarrow> x < 0 | _ \<Rightarrow> True) p"

definition RandomOrthoGraph_select_row_index ::
  "RandomOrthoGraph \<Rightarrow> real list \<Rightarrow> nat \<Rightarrow> exn + (nat \<times> RandomOrthoGraph)" where
  "RandomOrthoGraph_select_row_index self xk ik =
     and_then (np_take (self_weights self) (self_selectable self)) (\<lambda>unnormalized_p.
       let p = map (\<lambda>w. np_divide w (sum_list unnormalized_p)) unnormalized_p
       in if choice_refuses (self_selectable self) p then Inl ValueError
          else and_then (RandomOrthoGraph_update_selectable self ik) (\<lambda>self'. Inr (ik, self')))"

fun RandomOrthoGraph_calls ::
  "RandomOrthoGraph \<Rightarrow> (real list \<times> nat) list \<Rightarrow> exn + (nat list \<times> RandomOrthoGraph)" where
  "RandomOrthoGraph_calls self [] = Inr ([], self)"
| "RandomOrthoGraph_calls self ((xk, ik) # rest) =
     and_then (RandomOrthoGraph_select_row_index self xk ik) (\<lambda>(r, self').
     and_then (RandomOrthoGraph_calls self' rest) (\<lambda>(rs, self'').
       Inr (r # rs, self'')))"

text \<open>
  For the properties of the selectable set: the neighbours of row \<open>ik\<close> in the orthogonality
  graph \<open>G = A\<cdot>A\<^sup>T\<close>, the rows \<open>j\<close> with \<open>G[ik, j] \<noteq> 0\<close>.
\<close>

definition ortho_neighbours :: "'a Base_scheme \<Rightarrow> nat \<Rightarrow> nat set" where
  "ortho_neighbours self ik =
     {j. j < length (self_A self) \<and> row_dot (self_A self ! ik) (self_A self ! j) \<noteq> 0}"

section \<open>Concrete systems\<close>

text \<open>Three rows in one unknown, for the cyclic strategy.\<close>

definition three_rows :: Base where
  "three_rows = \<lparr>self_A = [[1], [1], [1]], self_b = [0, 0, 0], self_x0 = [0], self_xk = [0],
                  self_n_rows = 3, self_row_norms = [1, 1, 1]\<rparr>"

text \<open>Residual \<open>[1, -3, 3]\<close> at the stored iterate: rows 1 and 2 tie for the largest magnitude.\<close>

definition tie_system :: Base where
  "tie_system = \<lparr>self_A = [[1], [1], [1]], self_b = [1, - 3, 3], self_x0 = [0], self_xk = [0],
                  self_n_rows = 3, self_row_norms = [1, 1, 1]\<rparr>"

text \<open>Two rows of norms 1 and 2, and two zero rows.\<close>

definition norms_1_2 :: Base where
  "norms_1_2 = \<lparr>self_A = [[1, 0], [0, 2]], self_b = [1, 1], self_x0 = [0, 0], self_xk = [0, 0],
                 self_n_rows = 2, self_row_norms = [1, 2]\<rparr>"

definition zero_rows :: Base where
  "zero_rows = \<lparr>self_A = [[0, 0], [0, 0]], self_b = [1, 1], self_x0 = [0, 0], self_xk = [0, 0],
                 self_n_rows = 2, self_row_norms = [0, 0]\<rparr>"

text \<open>
  Row distances \<open>[0, 10\<^sup>-\<^sup>9, 1]\<close> at the iterate \<open>[0]\<close>, under the quantiles 0 and 1.
\<close>

definition near_min :: Base where
  "near_min = \<lparr>self_A = [[1], [1], [1]], self_b = [0, 1 / 10 ^ 9, 1], self_x0 = [0], self_xk = [0],
                self_n_rows = 3, self_row_norms = [1, 1, 1]\<rparr>"

text \<open>Four calls on \<open>near_min\<close> with a window of two distances.\<close>

definition four_calls :: "(real list \<times> int) list" where
  "four_calls = [([0], 2), ([0], 0), ([1], 0), ([1], 2)]"

text \<open>
  Three rows in two unknowns; rows 0 and 2 are orthogonal to each other, row 1 to neither.
  No row is satisfied by the initial iterate.
\<close>

definition chain :: Base where
  "chain = \<lparr>self_A = [[1, 0], [1, 1], [0, 1]], self_b = [1, 1, 1], self_x0 = [0, 0],
             self_xk = [0, 0], self_n_rows = 3, self_row_norms = [1, sqrt 2, 1]\<rparr>"

text \<open>
  Two orthonormal rows with right-hand side \<open>[1, 2]\<close>: after either projection the other one
  solves the system, and projecting onto row 1 first leaves the smaller residual.
\<close>

definition unit_rows :: Base where
  "unit_rows = \<lparr>self_A = [[1, 0], [0, 1]], self_b = [1, 2], self_x0 = [0, 0],
                 self_xk = [0, 0], self_n_rows = 2, self_row_norms = [1, 1]\<rparr>"

section \<open>Cyclic visits the rows round-robin\<close>

lemma and_then_Inr_iff:
  "and_then m f = Inr y \<longleftrightarrow> (\<exists>v. m = Inr v \<and> f v = Inr y)"
  by (cases m) auto

lemma next_index_shift: "(r + 1 + (1 + j)) mod m = ((1 + r) mod m + 1 + j) mod m" for r j m :: int
proof -
  have "((1 + r) mod m + (1 + j)) mod m = ((1 + r) + (1 + j)) mod m"
    by (rule mod_add_left_eq)
  moreover have "(1 + r) + (1 + j) = r + 1 + (1 + j)" by simp
  moreover have "(1 + r) mod m + (1 + j) = (1 + r) mod m + 1 + j" by simp
  ultimately show ?thesis by simp
qed

lemma Cyclic_calls_from:
  assumes "0 < self_n_rows self"
  shows "\<exists>self'. Cyclic_calls self xks =
           Inr (map (\<lambda>j. (self_row_index self + 1 + int j) mod int (self_n_rows self)) [0..<length xks], self')
           \<and> self_n_rows self' = self_n_rows self"
  using assms
proof (induction xks arbitrary: self)
  case Nil
  then show ?case by simp
next
  case (Cons xk xks)
  let ?m = "int (self_n_rows self)"
  let ?s = "self\<lparr>self_row_index := (1 + self_row_index self) mod ?m\<rparr>"
  have sel: "Cyclic_select_row_index self xk = Inr ((1 + self_row_index self) mod ?m, ?s)"
    using Cons.prems by (simp add: Cyclic_select_row_index_def Let_def)
  have m: "0 < self_n_rows ?s" using Cons.prems by simp
  from Cons.IH[OF m] obtain self' where
    rest: "Cyclic_calls ?s xks = Inr (map (\<lambda>j. (self_row_index ?s + 1 + int j) mod ?m) [0..<length xks], self')"
    and n: "self_n_rows self' = self_n_rows self"
    by auto
  have hd: "(self_row_index self + 1 + int 0) mod ?m = (1 + self_row_index self) mod ?m"
    by (simp add: add.commute)
  have tl: "(self_row_index self + 1 + int (Suc j)) mod ?m = (self_row_index ?s + 1 + int j) mod ?m" for j
    using next_index_shift[of "self_row_index self" "int j" ?m] by simp
  have shift: "map (\<lambda>j. (self_row_index self + 1 + int j) mod ?m) [0..<length (xk # xks)]
      = (1 + self_row_index self) mod ?m # map (\<lambda>j. (self_row_index ?s + 1 + int j) mod ?m) [0..<length xks]"
    unfolding length_Cons map_upt_Suc hd tl ..
  show ?case
    unfolding shift using sel rest n by simp
qed

lemma mod_window:
  assumes "0 < (m::nat)"
  shows "map (\<lambda>j. j mod m) [k..<k + m] = [k mod m..<m] @ [0..<k mod m]"
proof (rule nth_equalityI)
  show "length (map (\<lambda>j. j mod m) [k..<k + m]) = length ([k mod m..<m] @ [0..<k mod m])"
    using assms by simp
next
  fix i assume "i < length (map (\<lambda>j. j mod m) [k..<k + m])"
  then have i: "i < m" by simp
  let ?r = "k mod m"
  have r: "?r < m" using assms by simp
  have l: "map (\<lambda>j. j mod m) [k..<k + m] ! i = (?r + i) mod m"
    using i by (simp add: mod_add_left_eq)
  show "map (\<lambda>j. j mod m) [k..<k + m] ! i = ([k mod m..<m] @ [0..<k mod m]) ! i"
  proof (cases "?r + i < m")
    case True
    then have "i < m - ?r" by simp
    then show ?thesis unfolding l using True by (simp add: nth_append)
  next
    case False
    then have ge: "m \<le> ?r + i" by simp
    have "(?r + i) mod m = (?r + i - m) mod m" using ge by (rule le_mod_geq)
    also have "\<dots> = ?r + i - m"
    proof (rule mod_less)
      show "?r + i - m < m" using r i by linarith
    qed
    finally have e: "(?r + i) mod m = ?r + i - m" .
    have "\<not> i < m - ?r" using ge by simp
    moreover have "i - (m - ?r) < ?r" using ge i r by simp
    moreover have "i - (m - ?r) = ?r + i - m" using ge i r by simp
    ultimately show ?thesis unfolding l e by (simp add: nth_append)
  qed
qed

text \<open>
  Claim C1.  On a system with \<open>m > 0\<close> rows, the calls of a freshly constructed Cyclic
  strategy all return; call number \<open>k\<close> (counting from zero) returns \<open>k mod m\<close>; any \<open>m\<close>
  consecutive calls, starting at call \<open>k\<close>, return \<open>k mod m, \<dots>, m - 1, 0, \<dots>, k mod m - 1\<close>,
  that is every row index once, ascending with wraparound; call \<open>k + m\<close> returns what call
  \<open>k\<close> returned; and every returned value is a row index, never the SKIP sentinel.
\<close>

theorem Cyclic_round_robin:
  assumes "0 < self_n_rows base"
  shows "\<exists>outs self'.
           Cyclic_calls (Cyclic_init base) xks = Inr (outs, self')
         \<and> outs = map (\<lambda>k. int (k mod self_n_rows base)) [0..<length xks]
         \<and> (\<forall>k. k + self_n_rows base \<le> length xks \<longrightarrow>
                take (self_n_rows base) (drop k outs)
                  = map int ([k mod self_n_rows base..<self_n_rows base] @ [0..<k mod self_n_rows base]))
         \<and> (\<forall>k. k + self_n_rows base < length xks \<longrightarrow> outs ! (k + self_n_rows base) = outs ! k)
         \<and> (\<forall>i \<in> set outs. 0 \<le> i \<and> i < int (self_n_rows base) \<and> i \<noteq> SKIP)"
proof -
  let ?m = "self_n_rows base"
  let ?outs = "map (\<lambda>k. int (k mod ?m)) [0..<length xks]"
  have m: "0 < self_n_rows (Cyclic_init base)" and mm: "self_n_rows (Cyclic_init base) = ?m"
    and r: "self_row_index (Cyclic_init base) = - 1"
    using assms by (simp_all add: Cyclic_init_def Base.defs Cyclic.defs)
  from Cyclic_calls_from[OF m, of xks] obtain self' where
    run: "Cyclic_calls (Cyclic_init base) xks =
            Inr (map (\<lambda>j. (self_row_index (Cyclic_init base) + 1 + int j) mod int ?m) [0..<length xks], self')"
    unfolding mm by blast
  have outs: "map (\<lambda>j. (self_row_index (Cyclic_init base) + 1 + int j) mod int ?m) [0..<length xks] = ?outs"
    unfolding r by (simp add: zmod_int)
  have window: "take ?m (drop k ?outs) = map int ([k mod ?m..<?m] @ [0..<k mod ?m])"
    if "k + ?m \<le> length xks" for k
  proof -
    have "take ?m (drop k [0..<length xks]) = [k..<k + ?m]"
      using that by (simp add: take_upt)
    then have "take ?m (drop k ?outs) = map int (map (\<lambda>j. j mod ?m) [k..<k + ?m])"
      by (simp add: take_map drop_map del: drop_upt)
    then show ?thesis using mod_window[OF assms, of k] by simp
  qed
  have period: "?outs ! (k + ?m) = ?outs ! k" if "k + ?m < length xks" for k
    using that by simp
  have range: "\<forall>i \<in> set ?outs. 0 \<le> i \<and> i < int ?m \<and> i \<noteq> SKIP"
    using assms by (auto simp: SKIP_def)
  show ?thesis
    using run outs window period range by auto
qed

theorem Cyclic_round_robin_witness:
  "0 < self_n_rows three_rows \<and>
   (\<exists>self'. Cyclic_calls (Cyclic_init three_rows) [[0], [1], [2], [3], [4], [5], [6]]
             = Inr ([0, 1, 2, 0, 1, 2, 0], self'))"
  using Cyclic_round_robin[of three_rows "[[0], [1], [2], [3], [4], [5], [6]]"]
  by (auto simp: three_rows_def upt_rec)

section \<open>MaxDistance returns the first row of largest residual magnitude\<close>

lemma argmax_loop_spec:
  assumes "length pre = i" "best < i" "pre ! best = mp"
    and "\<forall>j<i. pre ! j \<le> mp" "\<forall>j<best. pre ! j < mp"
  shows "argmax_loop xs i mp best < length (pre @ xs)
       \<and> (\<forall>j<length (pre @ xs). (pre @ xs) ! j \<le> (pre @ xs) ! argmax_loop xs i mp best)
       \<and> (\<forall>j<argmax_loop xs i mp best. (pre @ xs) ! j < (pre @ xs) ! argmax_loop xs i mp best)"
  using assms
proof (induction xs arbitrary: pre i mp best)
  case Nil
  then show ?case by simp
next
  case (Cons x xs)
  let ?pre = "pre @ [x]"
  show ?case
  proof (cases "mp < x")
    case True
    have a: "length ?pre = Suc i" "i < Suc i" "?pre ! i = x"
      using Cons.prems(1) by (simp_all add: nth_append)
    have b: "\<forall>j<Suc i. ?pre ! j \<le> x"
      using Cons.prems True by (auto simp: nth_append less_Suc_eq intro: order.trans less_imp_le)
    have c: "\<forall>j<i. ?pre ! j < x"
      using Cons.prems True by (auto simp: nth_append intro: le_less_trans)
    from Cons.IH[OF a b c] True show ?thesis by simp
  next
    case False
    have a: "length ?pre = Suc i" "best < Suc i" "?pre ! best = mp"
      using Cons.prems by (simp_all add: nth_append)
    have b: "\<forall>j<Suc i. ?pre ! j \<le> mp"
      using Cons.prems False by (auto simp: nth_append less_Suc_eq)
    have c: "\<forall>j<best. ?pre ! j < mp"
      using Cons.prems by (auto simp: nth_append)
    from Cons.IH[OF a b c] False show ?thesis by simp
  qed
qed

lemma np_argmax_spec:
  assumes "v \<noteq> []"
  shows "\<exists>r. np_argmax v = Inr r \<and> r < length v \<and> (\<forall>j<length v. v ! j \<le> v ! r) \<and> (\<forall>j<r. v ! j < v ! r)"
proof -
  from assms obtain x xs where v: "v = x # xs" by (cases v) auto
  have "argmax_loop xs 1 x 0 < length ([x] @ xs)
       \<and> (\<forall>j<length ([x] @ xs). ([x] @ xs) ! j \<le> ([x] @ xs) ! argmax_loop xs 1 x 0)
       \<and> (\<forall>j<argmax_loop xs 1 x 0. ([x] @ xs) ! j < ([x] @ xs) ! argmax_loop xs 1 x 0)"
    by (rule argmax_loop_spec) simp_all
  then show ?thesis unfolding v by (simp add: np_argmax_def)
qed

lemma matvec_ok:
  assumes "list_all (\<lambda>row. length row = length x) A"
  shows "matvec A x = Inr (map (\<lambda>row. row_dot row x) A)"
  using assms by (simp add: matvec_def)

lemma residual_at_ok:
  assumes "list_all (\<lambda>row. length row = length x) (self_A self)"
    and "length (self_b self) = length (self_A self)"
  shows "residual_at self x = Inr (map (row_residual self x) [0..<length (self_A self)])"
proof -
  have "map2 (-) (self_b self) (map (\<lambda>row. row_dot row x) (self_A self))
        = map (row_residual self x) [0..<length (self_A self)]"
    using assms(2) by (intro nth_equalityI) (simp_all add: row_residual_def)
  then show ?thesis
    using assms by (simp add: residual_at_def matvec_ok np_sub_def)
qed

text \<open>
  Claim C2.  On a well-shaped system with at least one row, MaxDistance returns a row index
  \<open>i\<close> whose residual magnitude \<open>|b[i] - A[i]\<cdot>x|\<close> at the stored iterate is at least that of
  every row, hence equal to the maximum over all rows, and strictly larger than that of
  every row before \<open>i\<close>: ties go to the first occurrence.
\<close>

theorem MaxDistance_selects_first_largest_residual:
  assumes "Base_shapes self" and "0 < self_n_rows self"
  shows "\<exists>i. MaxDistance_select_row_index self xk = Inr (int i)
           \<and> i < self_n_rows self
           \<and> (\<forall>j<self_n_rows self.
                 \<bar>row_residual self (self_xk self) j\<bar> \<le> \<bar>row_residual self (self_xk self) i\<bar>)
           \<and> \<bar>row_residual self (self_xk self) i\<bar>
                = Max ((\<lambda>j. \<bar>row_residual self (self_xk self) j\<bar>) ` {0..<self_n_rows self})
           \<and> (\<forall>j<i. \<bar>row_residual self (self_xk self) j\<bar> < \<bar>row_residual self (self_xk self) i\<bar>)"
proof -
  let ?m = "self_n_rows self"
  let ?x = "self_xk self"
  let ?v = "np_abs (map (row_residual self ?x) [0..<?m])"
  have shapes: "list_all (\<lambda>row. length row = length ?x) (self_A self)"
    "length (self_b self) = length (self_A self)" "length (self_A self) = ?m"
    using assms(1) by (simp_all add: Base_shapes_def)
  have res: "residual_at self ?x = Inr (map (row_residual self ?x) [0..<?m])"
    using residual_at_ok[OF shapes(1,2)] shapes(3) by simp
  have ne: "?v \<noteq> []" using assms(2) by (simp add: np_abs_def)
  from np_argmax_spec[OF ne] obtain r where
    r: "np_argmax ?v = Inr r" "r < length ?v" "\<forall>j<length ?v. ?v ! j \<le> ?v ! r" "\<forall>j<r. ?v ! j < ?v ! r"
    by blast
  have len: "length ?v = ?m" by (simp add: np_abs_def)
  have nth: "?v ! j = \<bar>row_residual self ?x j\<bar>" if "j < ?m" for j
    using that by (simp add: np_abs_def)
  have sel: "MaxDistance_select_row_index self xk = Inr (int r)"
    by (simp add: MaxDistance_select_row_index_def res r(1))
  have rm: "r < ?m" using r(2) len by simp
  have ge: "\<forall>j<?m. \<bar>row_residual self ?x j\<bar> \<le> \<bar>row_residual self ?x r\<bar>"
    using r(3) rm nth len by auto
  have first: "\<forall>j<r. \<bar>row_residual self ?x j\<bar> < \<bar>row_residual self ?x r\<bar>"
    using r(4) rm nth by auto
  have "Max ((\<lambda>j. \<bar>row_residual self ?x j\<bar>) ` {0..<?m}) = \<bar>row_residual self ?x r\<bar>"
  proof (rule Max_eqI)
    show "finite ((\<lambda>j. \<bar>row_residual self ?x j\<bar>) ` {0..<?m})" by simp
    show "\<And>y. y \<in> (\<lambda>j. \<bar>row_residual self ?x j\<bar>) ` {0..<?m} \<Longrightarrow> y \<le> \<bar>row_residual self ?x r\<bar>"
      using ge by auto
    show "\<bar>row_residual self ?x r\<bar> \<in> (\<lambda>j. \<bar>row_residual self ?x j\<bar>) ` {0..<?m}"
      using rm by auto
  qed
  then show ?thesis using sel rm ge first by auto
qed

theorem MaxDistance_selects_first_largest_residual_witness:
  "Base_shapes tie_system \<and> 0 < self_n_rows tie_system \<and>
   MaxDistance_select_row_index tie_system [7] = Inr 1 \<and>
   \<bar>row_residual tie_system (self_xk tie_system) 1\<bar> = 3 \<and>
   \<bar>row_residual tie_system (self_xk tie_system) 2\<bar> = 3"
proof -
  have h: "Base_shapes tie_system" "0 < self_n_rows tie_system"
    by (simp_all add: Base_shapes_def tie_system_def)
  have r: "\<bar>row_residual tie_system (self_xk tie_system) 0\<bar> = 1"
    "\<bar>row_residual tie_system (self_xk tie_system) 1\<bar> = 3"
    "\<bar>row_residual tie_system (self_xk tie_system) 2\<bar> = 3"
    by (simp_all add: tie_system_def row_residual_def row_dot_def)
  from MaxDistance_selects_first_largest_residual[OF h, of "[7]"] obtain i where
    i: "MaxDistance_select_row_index tie_system [7] = Inr (int i)" "i < self_n_rows tie_system"
      "\<forall>j<self_n_rows tie_system.
          \<bar>row_residual tie_system (self_xk tie_system) j\<bar> \<le> \<bar>row_residual tie_system (self_xk tie_system) i\<bar>"
      "\<forall>j<i. \<bar>row_residual tie_system (self_xk tie_system) j\<bar> < \<bar>row_residual tie_system (self_xk tie_system) i\<bar>"
    by blast
  have n: "self_n_rows tie_system = 3" by (simp add: tie_system_def)
  from i(2) n have "i = 0 \<or> i = 1 \<or> i = 2" by arith
  moreover have "i \<noteq> 0"
  proof
    assume "i = 0"
    with i(3) n have "\<bar>row_residual tie_system (self_xk tie_system) 1\<bar>
        \<le> \<bar>row_residual tie_system (self_xk tie_system) 0\<bar>" by simp
    with r show False by simp
  qed
  moreover have "i \<noteq> 2"
  proof
    assume "i = 2"
    with i(4) have "\<bar>row_residual tie_system (self_xk tie_system) 1\<bar>
        < \<bar>row_residual tie_system (self_xk tie_system) 2\<bar>" by simp
    with r show False by simp
  qed
  ultimately have "i = 1" by blast
  then show ?thesis using i(1) h r by simp
qed

section \<open>SVRandom weights the rows by their squared norms\<close>

lemma SVRandom_init_p:
  "self_p (SVRandom_init base) =
     Some (map (\<lambda>s. np_divide s (sum_list (map (\<lambda>r. r ^ 2) (self_row_norms base))))
             (map (\<lambda>r. r ^ 2) (self_row_norms base)))"
  by (simp add: SVRandom_init_def Random_init_def Let_def Base.defs Random.defs)

text \<open>
  Claim C8.  The distribution that the constructor of SVRandom stores has one entry per
  row, entry \<open>i\<close> being the quotient of the squared norm of row \<open>i\<close> by the sum of all
  squared norms; when that sum is not zero the quotient is the real number
  \<open>row_norm[i]\<^sup>2 / \<Sum> row_norm[j]\<^sup>2\<close>, and for the norms \<open>[1, 2]\<close> it is \<open>[1/5, 4/5]\<close>.
\<close>

theorem SVRandom_squared_norm_weights:
  "\<exists>p. self_p (SVRandom_init base) = Some p
      \<and> length p = length (self_row_norms base)
      \<and> (\<forall>i<length (self_row_norms base).
            p ! i = np_divide ((self_row_norms base ! i) ^ 2)
                      (\<Sum>r\<leftarrow>self_row_norms base. r ^ 2))
      \<and> ((\<Sum>r\<leftarrow>self_row_norms base. r ^ 2) \<noteq> 0 \<longrightarrow>
           (\<forall>i<length (self_row_norms base).
              p ! i = Num ((self_row_norms base ! i) ^ 2 / (\<Sum>r\<leftarrow>self_row_norms base. r ^ 2))))
      \<and> (self_row_norms base = [1, 2] \<longrightarrow> p = [Num (1 / 5), Num (4 / 5)])"
  unfolding SVRandom_init_p by (auto simp: np_divide_def)

theorem SVRandom_squared_norm_weights_witness:
  "self_row_norms norms_1_2 = [1, 2] \<and> (\<Sum>r\<leftarrow>self_row_norms norms_1_2. r ^ 2) \<noteq> 0 \<and>
   self_p (SVRandom_init norms_1_2) = Some [Num (1 / 5), Num (4 / 5)]"
proof -
  have h: "self_row_norms norms_1_2 = [1, 2]" by (simp add: norms_1_2_def)
  from SVRandom_squared_norm_weights[of norms_1_2] obtain p where
    "self_p (SVRandom_init norms_1_2) = Some p"
    "self_row_norms norms_1_2 = [1, 2] \<longrightarrow> p = [Num (1 / 5), Num (4 / 5)]"
    by blast
  with h show ?thesis by simp
qed

section \<open>SVRandom on zero rows\<close>

lemma sum_list_squares_zero:
  fixes rs :: "real list"
  assumes "(\<Sum>r\<leftarrow>rs. r ^ 2) = 0" and "r \<in> set rs"
  shows "r = 0"
  using assms
proof (induction rs)
  case Nil
  then show ?case by simp
next
  case (Cons a rs)
  have nn: "0 \<le> (\<Sum>r\<leftarrow>rs. r ^ 2)" by (rule sum_list_nonneg) auto
  have "a ^ 2 + (\<Sum>r\<leftarrow>rs. r ^ 2) = 0" using Cons.prems(1) by simp
  with nn have "a ^ 2 = 0" "(\<Sum>r\<leftarrow>rs. r ^ 2) = 0"
    by (simp_all add: add_nonneg_eq_0_iff)
  with Cons show ?case by auto
qed

text \<open>
  Claim C9 as stated fails: on two zero rows the constructor completes and both entries of
  the stored distribution are NaN.
\<close>

theorem SVRandom_zero_norms_counterexample:
  "self_row_norms zero_rows = [0, 0] \<and> self_p (SVRandom_init zero_rows) = Some [NaN, NaN]"
  by (simp add: SVRandom_init_p zero_rows_def np_divide_def)

text \<open>
  Claim C9, as amended.  The constructor of SVRandom has no guard for a zero sum of squared
  row norms: it raises nothing and applies no fallback, and every entry of the
  distribution it stores is the NaN of \<open>0/0\<close>.
\<close>

theorem SVRandom_zero_norms_all_NaN:
  assumes "(\<Sum>r\<leftarrow>self_row_norms base. r ^ 2) = 0"
  shows "self_p (SVRandom_init base) = Some (replicate (length (self_row_norms base)) NaN)"
proof -
  have z: "r ^ 2 = 0" if "r \<in> set (self_row_norms base)" for r
    using sum_list_squares_zero[OF assms that] by simp
  have "map (\<lambda>s. np_divide s 0) (map (\<lambda>r. r ^ 2) (self_row_norms base))
        = replicate (length (self_row_norms base)) NaN"
    using z by (auto simp: map_replicate_const[symmetric] np_divide_def)
  then show ?thesis unfolding SVRandom_init_p assms by simp
qed

theorem SVRandom_zero_norms_all_NaN_witness:
  "(\<Sum>r\<leftarrow>self_row_norms zero_rows. r ^ 2) = 0 \<and>
   self_p (SVRandom_init zero_rows) = Some [NaN, NaN]"
proof -
  have h: "(\<Sum>r\<leftarrow>self_row_norms zero_rows. r ^ 2) = 0" by (simp add: zero_rows_def)
  have "length (self_row_norms zero_rows) = 2" by (simp add: zero_rows_def)
  with SVRandom_zero_norms_all_NaN[OF h] h show ?thesis by (simp add: numeral_2_eq_2)
qed

section \<open>The argument of the greedy selections is not read\<close>

text \<open>
  Claim C10.  MaxDistance and Lookahead return the same result for any two values of the
  argument \<open>xk\<close> when the solver state, with its stored iterate, is the same.
\<close>

theorem greedy_selection_ignores_argument:
  "MaxDistance_select_row_index self xk = MaxDistance_select_row_index self xk'
   \<and> Lookahead_select_row_index upd look xk = Lookahead_select_row_index upd look xk'"
  by (simp add: MaxDistance_select_row_index_def Lookahead_select_row_index_def)

section \<open>Quantile: the extreme quantiles\<close>

lemma sorted_last_Max:
  fixes xs :: "real list"
  assumes "sorted xs" and "xs \<noteq> []"
  shows "xs ! (length xs - 1) = Max (set xs)"
proof (rule Max_eqI[symmetric])
  show "finite (set xs)" by simp
  show "xs ! (length xs - 1) \<in> set xs" using assms(2) by simp
  fix y assume "y \<in> set xs"
  then obtain i where i: "i < length xs" "y = xs ! i" by (auto simp: in_set_conv_nth)
  then show "y \<le> xs ! (length xs - 1)"
    using assms by (auto intro!: sorted_nth_mono)
qed

lemma sorted_first_Min:
  fixes xs :: "real list"
  assumes "sorted xs" and "xs \<noteq> []"
  shows "xs ! 0 = Min (set xs)"
proof (rule Min_eqI[symmetric])
  show "finite (set xs)" by simp
  show "xs ! 0 \<in> set xs" using assms(2) by simp
  fix y assume "y \<in> set xs"
  then obtain i where i: "i < length xs" "y = xs ! i" by (auto simp: in_set_conv_nth)
  then show "xs ! 0 \<le> y"
    using assms by (auto intro!: sorted_nth_mono)
qed

lemma sort_not_Nil:
  fixes a :: "real list"
  assumes "a \<noteq> []"
  shows "sort a \<noteq> []"
proof
  assume "sort a = []"
  then have "length (sort a) = 0" by simp
  then show False using assms by simp
qed

lemma np_quantile_one:
  assumes "a \<noteq> []"
  shows "np_quantile a 1 = Inr (Max (set a))"
proof -
  have "sort a ! (length (sort a) - 1) = Max (set (sort a))"
    by (rule sorted_last_Max) (simp_all add: sort_not_Nil[OF assms])
  then show ?thesis using assms by (simp add: np_quantile_def lerp_def)
qed

lemma np_quantile_zero:
  assumes "a \<noteq> []"
  shows "np_quantile a 0 = Inr (Min (set a))"
proof -
  have "sort a ! 0 = Min (set (sort a))"
    by (rule sorted_first_Min) (simp_all add: sort_not_Nil[OF assms])
  then show ?thesis using assms by (simp add: np_quantile_def lerp_def Let_def)
qed

lemma Quantile_distance_ok:
  assumes "list_all (\<lambda>row. length row = length xk) (self_A self)"
    and "length (self_b self) = length (self_A self)"
    and "0 \<le> ik" and "ik < int (length (self_A self))"
  shows "Quantile_distance self xk ik = Inr \<bar>row_residual self xk (nat ik)\<bar>"
proof -
  have "self_A self ! nat ik \<in> set (self_A self)" using assms(3,4) by simp
  then have "length (self_A self ! nat ik) = length xk"
    using assms(1) by (simp add: list_all_iff)
  then show ?thesis
    using assms by (simp add: Quantile_distance_def np_index_def dot_def row_residual_def)
qed

lemma Quantile_threshold_distances_ok:
  assumes "list_all (\<lambda>row. length row = length xk) (self_A self)"
    and "length (self_b self) = length (self_A self)"
  shows "Quantile_threshold_distances self xk
           = Inr (map (\<lambda>j. \<bar>row_residual self xk j\<bar>) [0..<length (self_A self)])"
  using residual_at_ok[OF assms] by (simp add: Quantile_threshold_distances_def np_abs_def comp_def)


lemma isclose_above:
  assumes "mn \<le> d" and "0 \<le> mn"
  shows "(d < mn \<or> np_isclose d mn) \<longleftrightarrow> d \<le> mn + (1 / 10 ^ 8 + 1 / 10 ^ 5 * mn)"
proof -
  have a: "\<bar>d - mn\<bar> = d - mn" "\<bar>mn\<bar> = mn" using assms by simp_all
  have "\<not> d < mn" using assms(1) by simp
  then show ?thesis unfolding np_isclose_def a by linarith
qed

lemma Quantile_init_fields:
  "self_A (Quantile_init base p q) = self_A base"
  "self_b (Quantile_init base p q) = self_b base"
  "self_n_rows (Quantile_init base p q) = self_n_rows base"
  "self_quantile (Quantile_init base p q) = (case q of None \<Rightarrow> 1 | Some v \<Rightarrow> v)"
  by (simp_all add: Quantile_init_def Random_init_def Base.defs Random.defs Quantile.defs)

lemma Quantile_select_unfold:
  assumes "list_all (\<lambda>row. length row = length xk) (self_A self)"
    and "length (self_b self) = length (self_A self)"
    and "0 \<le> ik" and "ik < int (length (self_A self))"
    and "np_quantile (map (\<lambda>j. \<bar>row_residual self xk j\<bar>) [0..<length (self_A self)]) (self_quantile self)
          = Inr threshold"
  shows "Quantile_select_row_index self xk ik =
           Inr (if \<bar>row_residual self xk (nat ik)\<bar> < threshold
                   \<or> np_isclose \<bar>row_residual self xk (nat ik)\<bar> threshold then ik else - 1)"
  using Quantile_distance_ok[OF assms(1-4)] Quantile_threshold_distances_ok[OF assms(1,2)] assms(5)
  by (simp add: Quantile_select_row_index_def Quantile_threshold_def)

text \<open>
  Claim C4.  A Quantile strategy constructed with \<open>quantile=1.0\<close> (given, or left at the
  default) on a well-shaped system returns every index that the wrapped Random strategy
  proposes, for every iterate of the right dimension; it never returns the SKIP sentinel.
\<close>

theorem Quantile_one_never_rejects:
  assumes "Base_shapes base" and "length xk = length (self_x0 base)"
    and "0 \<le> ik" and "ik < int (self_n_rows base)"
    and "quantile = None \<or> quantile = Some 1"
  shows "Quantile_select_row_index (Quantile_init base p quantile) xk ik = Inr ik \<and> ik \<noteq> SKIP"
proof -
  let ?self = "Quantile_init base p quantile"
  let ?m = "length (self_A ?self)"
  let ?ds = "map (\<lambda>j. \<bar>row_residual ?self xk j\<bar>) [0..<?m]"
  have m: "?m = self_n_rows base"
    using assms(1) by (simp add: Base_shapes_def Quantile_init_fields)
  have sh: "list_all (\<lambda>row. length row = length xk) (self_A ?self)"
    "length (self_b ?self) = length (self_A ?self)"
    using assms(1,2) by (simp_all add: Base_shapes_def Quantile_init_fields)
  have ik: "0 \<le> ik" "ik < int ?m" using assms(3,4) m by simp_all
  have q: "self_quantile ?self = 1" using assms(5) by (auto simp: Quantile_init_fields)
  have ne: "?ds \<noteq> []" using ik by auto
  have th: "np_quantile ?ds (self_quantile ?self) = Inr (Max (set ?ds))"
    unfolding q by (rule np_quantile_one[OF ne])
  have "\<bar>row_residual ?self xk (nat ik)\<bar> \<in> set ?ds" using ik by auto
  then have le: "\<bar>row_residual ?self xk (nat ik)\<bar> \<le> Max (set ?ds)" by simp
  have acc: "\<bar>row_residual ?self xk (nat ik)\<bar> < Max (set ?ds)
      \<or> np_isclose \<bar>row_residual ?self xk (nat ik)\<bar> (Max (set ?ds))"
  proof (cases "\<bar>row_residual ?self xk (nat ik)\<bar> < Max (set ?ds)")
    case True then show ?thesis by simp
  next
    case False
    with le have "\<bar>row_residual ?self xk (nat ik)\<bar> = Max (set ?ds)" by simp
    then show ?thesis by (simp add: np_isclose_def)
  qed
  have "Quantile_select_row_index ?self xk ik = Inr ik"
    using Quantile_select_unfold[OF sh ik th] acc by simp
  moreover have "ik \<noteq> SKIP" using assms(3) by (simp add: SKIP_def)
  ultimately show ?thesis by simp
qed

theorem Quantile_one_never_rejects_witness:
  "Base_shapes near_min \<and> length [0::real] = length (self_x0 near_min) \<and>
   (2::int) < int (self_n_rows near_min) \<and>
   Quantile_select_row_index (Quantile_init near_min None None) [0] 0 = Inr 0 \<and>
   Quantile_select_row_index (Quantile_init near_min None None) [0] 1 = Inr 1 \<and>
   Quantile_select_row_index (Quantile_init near_min None (Some 1)) [0] 2 = Inr 2"
proof -
  have h: "Base_shapes near_min" "length [0::real] = length (self_x0 near_min)"
    "(0::int) < int (self_n_rows near_min)" "(1::int) < int (self_n_rows near_min)"
    "(2::int) < int (self_n_rows near_min)"
    by (simp_all add: Base_shapes_def near_min_def)
  show ?thesis
    using h Quantile_one_never_rejects[OF h(1,2) _ h(3), of None None]
      Quantile_one_never_rejects[OF h(1,2) _ h(4), of None None]
      Quantile_one_never_rejects[OF h(1,2) _ h(5), of "Some 1" None]
    by simp
qed

section \<open>Quantile at the quantile 0\<close>

text \<open>
  Claim C5.  A Quantile strategy constructed with \<open>quantile=0.0\<close> on a well-shaped system
  takes the minimum residual distance over all rows as its threshold.  No row lies below
  it, so the proposed row is accepted only at the minimum, in the tolerant sense of
  \<^verbatim>\<open>np.isclose\<close> (within \<open>10\<^sup>-\<^sup>8 + 10\<^sup>-\<^sup>5 \<cdot> min\<close> of it); every proposed row whose distance
  exceeds the minimum beyond that tolerance is answered by the SKIP sentinel.
\<close>

theorem Quantile_zero_accepts_only_at_minimum:
  assumes "Base_shapes base" and "length xk = length (self_x0 base)"
    and "0 \<le> ik" and "ik < int (self_n_rows base)"
  shows "min_row_distance base xk \<le> \<bar>row_residual base xk (nat ik)\<bar>
       \<and> Quantile_threshold (Quantile_init base p (Some 0)) xk = Inr (min_row_distance base xk)
       \<and> Quantile_select_row_index (Quantile_init base p (Some 0)) xk ik =
            Inr (if np_isclose \<bar>row_residual base xk (nat ik)\<bar> (min_row_distance base xk)
                 then ik else SKIP)
       \<and> (min_row_distance base xk < \<bar>row_residual base xk (nat ik)\<bar>
            \<and> \<not> np_isclose \<bar>row_residual base xk (nat ik)\<bar> (min_row_distance base xk)
            \<longrightarrow> Quantile_select_row_index (Quantile_init base p (Some 0)) xk ik = Inr SKIP)
       \<and> (Quantile_select_row_index (Quantile_init base p (Some 0)) xk ik = Inr ik
            \<longrightarrow> np_isclose \<bar>row_residual base xk (nat ik)\<bar> (min_row_distance base xk))
       \<and> (np_isclose \<bar>row_residual base xk (nat ik)\<bar> (min_row_distance base xk)
            \<longleftrightarrow> \<bar>row_residual base xk (nat ik)\<bar>
                  \<le> min_row_distance base xk + (1 / 10 ^ 8 + 1 / 10 ^ 5 * min_row_distance base xk))"
proof -
  let ?self = "Quantile_init base p (Some 0)"
  let ?m = "length (self_A ?self)"
  let ?ds = "map (\<lambda>j. \<bar>row_residual ?self xk j\<bar>) [0..<?m]"
  let ?d = "\<bar>row_residual base xk (nat ik)\<bar>"
  let ?mn = "min_row_distance base xk"
  have m: "?m = self_n_rows base"
    using assms(1) by (simp add: Base_shapes_def Quantile_init_fields)
  have sh: "list_all (\<lambda>row. length row = length xk) (self_A ?self)"
    "length (self_b ?self) = length (self_A ?self)"
    using assms(1,2) by (simp_all add: Base_shapes_def Quantile_init_fields)
  have ik: "0 \<le> ik" "ik < int ?m" using assms(3,4) m by simp_all
  have rr: "row_residual ?self xk j = row_residual base xk j" for j
    by (simp add: row_residual_def Quantile_init_fields)
  have q: "self_quantile ?self = 0" by (simp add: Quantile_init_fields)
  have ne: "?ds \<noteq> []" using ik by auto
  have set_ds: "set ?ds = (\<lambda>j. \<bar>row_residual base xk j\<bar>) ` {0..<self_n_rows base}"
    unfolding m by (auto simp: rr)
  have mn: "Min (set ?ds) = ?mn" unfolding set_ds min_row_distance_def ..
  have th: "np_quantile ?ds (self_quantile ?self) = Inr ?mn"
    unfolding q np_quantile_zero[OF ne] mn ..
  have thr: "Quantile_threshold ?self xk = Inr ?mn"
    using Quantile_threshold_distances_ok[OF sh] th by (simp add: Quantile_threshold_def)
  have "?d \<in> set ?ds" unfolding set_ds using assms(3,4) by auto
  then have "Min (set ?ds) \<le> ?d" by simp
  then have ge: "?mn \<le> ?d" unfolding mn .
  have "Min (set ?ds) \<in> set ?ds" using ne by (intro Min_in) simp_all
  then have nonneg: "0 \<le> ?mn" unfolding mn by auto
  have tol: "(?d < ?mn \<or> np_isclose ?d ?mn) \<longleftrightarrow> ?d \<le> ?mn + (1 / 10 ^ 8 + 1 / 10 ^ 5 * ?mn)"
    using ge nonneg by (rule isclose_above)
  have nl: "\<not> ?d < ?mn" using ge by simp
  have sel: "Quantile_select_row_index ?self xk ik = Inr (if np_isclose ?d ?mn then ik else SKIP)"
    using Quantile_select_unfold[OF sh ik th] nl by (simp add: rr SKIP_def)
  have skip: "ik \<noteq> SKIP" using assms(3) by (simp add: SKIP_def)
  show ?thesis
    using ge thr sel tol nl skip by auto
qed

theorem Quantile_zero_accepts_only_at_minimum_witness:
  "Base_shapes near_min \<and> length [0::real] = length (self_x0 near_min) \<and>
   (2::int) < int (self_n_rows near_min) \<and>
   min_row_distance near_min [0] = 0 \<and>
   np_isclose \<bar>row_residual near_min [0] 1\<bar> (min_row_distance near_min [0]) \<and>
   \<not> np_isclose \<bar>row_residual near_min [0] 2\<bar> (min_row_distance near_min [0]) \<and>
   Quantile_select_row_index (Quantile_init near_min None (Some 0)) [0] 0 = Inr 0 \<and>
   Quantile_select_row_index (Quantile_init near_min None (Some 0)) [0] 1 = Inr 1 \<and>
   Quantile_select_row_index (Quantile_init near_min None (Some 0)) [0] 2 = Inr SKIP"
proof -
  have h: "Base_shapes near_min" "length [0::real] = length (self_x0 near_min)"
    "(0::int) < int (self_n_rows near_min)" "(1::int) < int (self_n_rows near_min)"
    "(2::int) < int (self_n_rows near_min)"
    by (simp_all add: Base_shapes_def near_min_def)
  have r: "\<bar>row_residual near_min [0] 0\<bar> = 0" "\<bar>row_residual near_min [0] (Suc 0)\<bar> = 1 / 10 ^ 9"
    "\<bar>row_residual near_min [0] 2\<bar> = 1"
    by (simp_all add: near_min_def row_residual_def row_dot_def)
  have n: "{0..<self_n_rows near_min} = {0, Suc 0, 2}" by (auto simp: near_min_def)
  have mn: "min_row_distance near_min [0] = 0"
    unfolding min_row_distance_def n by (simp add: r)
  have c: "np_isclose 0 0" "np_isclose (1 / 10 ^ 9) 0" "\<not> np_isclose 1 0"
    by (simp_all add: np_isclose_def)
  show ?thesis
    using h mn r c Quantile_zero_accepts_only_at_minimum[OF h(1,2) _ h(3), of None]
      Quantile_zero_accepts_only_at_minimum[OF h(1,2) _ h(4), of None]
      Quantile_zero_accepts_only_at_minimum[OF h(1,2) _ h(5), of None]
    by simp
qed

section \<open>WindowedQuantile: the window is a FIFO of the computed distances\<close>

lemma tl_drop_snoc:
  assumes "k < length hist"
  shows "tl (drop k hist @ [x]) = drop (Suc k) (hist @ [x])"
proof -
  have ne: "drop k hist \<noteq> []" using assms by simp
  have "tl (drop k hist @ [x]) = tl (drop k hist) @ [x]"
    using ne by (rule tl_append2)
  also have "tl (drop k hist) = drop (Suc k) hist"
    by (simp only: drop_Suc drop_tl)
  also have "drop (Suc k) hist @ [x] = drop (Suc k) (hist @ [x])"
    using assms by (simp only: drop_append) simp
  finally show ?thesis .
qed

lemma deque_append_most_recent:
  assumes "items d = most_recent (maxlen d) hist"
  shows "items (deque_append d x) = most_recent (maxlen d) (hist @ [x])"
    and "maxlen (deque_append d x) = maxlen d"
proof -
  let ?w = "maxlen d" and ?n = "length hist"
  show "maxlen (deque_append d x) = maxlen d" by (simp add: deque_append_def Let_def)
  show "items (deque_append d x) = most_recent (maxlen d) (hist @ [x])"
  proof (cases "?w \<le> ?n")
    case True
    have it: "items d = drop (?n - ?w) hist" using assms by (simp only: most_recent_def)
    have len: "length (items d) = ?w" unfolding it using True by simp
    have full: "maxlen d < length (items d @ [x])" using len by simp
    have tl: "tl (drop (?n - ?w) hist @ [x]) = drop (Suc ?n - ?w) (hist @ [x])"
    proof (cases "?w = 0")
      case True
      then show ?thesis by simp
    next
      case False
      with True have lt: "?n - ?w < ?n" by simp
      have s: "Suc ?n - ?w = Suc (?n - ?w)" using True by simp
      show ?thesis unfolding s using lt by (rule tl_drop_snoc)
    qed
    have "items (deque_append d x) = tl (items d @ [x])"
      using full by (simp only: deque_append_def Let_def) simp
    also have "\<dots> = drop (Suc ?n - ?w) (hist @ [x])" unfolding it by (rule tl)
    finally show ?thesis by (simp only: most_recent_def length_append_singleton)
  next
    case False
    then have it: "items d = hist" using assms by (simp add: most_recent_def)
    have "\<not> maxlen d < length (items d @ [x])" unfolding it using False by simp
    then have "items (deque_append d x) = hist @ [x]"
      unfolding it[symmetric] by (simp only: deque_append_def Let_def) simp
    moreover have "most_recent ?w (hist @ [x]) = hist @ [x]"
      using False by (simp add: most_recent_def)
    ultimately show ?thesis by simp
  qed
qed

lemma np_quantile_returns:
  assumes "a \<noteq> []" and "0 \<le> q" and "q \<le> 1"
  shows "\<exists>t. np_quantile a q = Inr t"
  using assms by (simp add: np_quantile_def Let_def)

lemma most_recent_nonempty:
  assumes "0 < w" and "xs \<noteq> []"
  shows "most_recent w xs \<noteq> []"
proof -
  have "0 < length xs" using assms(2) by simp
  then have "length xs - w < length xs" using assms(1) by simp
  then show ?thesis by (simp add: most_recent_def)
qed


lemma WindowedQuantile_step:
  assumes a: "self_A self = self_A base" "self_b self = self_b base"
    and sh: "list_all (\<lambda>row. length row = length xk) (self_A base)"
      "length (self_b base) = length (self_A base)" "0 \<le> ik" "ik < int (length (self_A base))"
    and q: "0 \<le> self_quantile self" "self_quantile self \<le> 1"
    and w: "0 < maxlen (self_window self)"
    and inv: "items (self_window self) = most_recent (maxlen (self_window self)) hist"
  shows "\<exists>t. np_quantile (most_recent (maxlen (self_window self)) (hist @ [\<bar>row_residual base xk (nat ik)\<bar>]))
                (self_quantile self) = Inr t
           \<and> WindowedQuantile_select_row_index self xk ik =
               Inr (if \<bar>row_residual base xk (nat ik)\<bar> < t \<or> np_isclose \<bar>row_residual base xk (nat ik)\<bar> t
                    then ik else SKIP,
                    self\<lparr>self_window := deque_append (self_window self) \<bar>row_residual base xk (nat ik)\<bar>\<rparr>)"
proof -
  let ?d = "\<bar>row_residual base xk (nat ik)\<bar>"
  let ?self' = "self\<lparr>self_window := deque_append (self_window self) ?d\<rparr>"
  have rr: "row_residual self xk (nat ik) = row_residual base xk (nat ik)"
    by (simp add: row_residual_def a)
  have dist: "Quantile_distance self xk ik = Inr ?d"
    using Quantile_distance_ok[of xk self ik] sh unfolding a rr by simp
  have wd: "WindowedQuantile_distance self xk ik = Inr (?d, ?self')"
    by (simp add: WindowedQuantile_distance_def dist)
  have it: "items (self_window ?self') = most_recent (maxlen (self_window self)) (hist @ [?d])"
    using deque_append_most_recent(1)[OF inv] by simp
  have ne: "most_recent (maxlen (self_window self)) (hist @ [?d]) \<noteq> []"
    by (rule most_recent_nonempty[OF w]) simp
  from np_quantile_returns[OF ne q] obtain t where
    t: "np_quantile (most_recent (maxlen (self_window self)) (hist @ [?d])) (self_quantile self) = Inr t"
    by blast
  have th: "WindowedQuantile_threshold ?self' xk = Inr t"
    using t it by (simp add: WindowedQuantile_threshold_def WindowedQuantile_threshold_distances_def)
  have "WindowedQuantile_select_row_index self xk ik =
          Inr (if ?d < t \<or> np_isclose ?d t then ik else SKIP, ?self')"
    unfolding WindowedQuantile_select_row_index_def wd by (simp add: th SKIP_def)
  with t show ?thesis by blast
qed

lemma WindowedQuantile_calls_spec:
  assumes "self_A self = self_A base" and "self_b self = self_b base"
    and "list_all (\<lambda>(xk, ik). list_all (\<lambda>row. length row = length xk) (self_A base)
                               \<and> 0 \<le> ik \<and> ik < int (length (self_A base))) calls"
    and "length (self_b base) = length (self_A base)"
    and "0 \<le> self_quantile self" and "self_quantile self \<le> 1"
    and "0 < maxlen (self_window self)"
    and "items (self_window self) = most_recent (maxlen (self_window self)) hist"
  shows "\<exists>outs self'.
           WindowedQuantile_calls self calls = Inr (outs, self')
         \<and> length outs = length calls
         \<and> items (self_window self')
             = most_recent (maxlen (self_window self)) (hist @ call_distances base calls)
         \<and> (\<forall>k<length calls. \<exists>t.
               np_quantile (most_recent (maxlen (self_window self))
                              (hist @ take (Suc k) (call_distances base calls)))
                 (self_quantile self) = Inr t
             \<and> outs ! k = (if call_distances base calls ! k < t
                                \<or> np_isclose (call_distances base calls ! k) t
                             then snd (calls ! k) else SKIP))"
  using assms
proof (induction calls arbitrary: self hist)
  case Nil
  then show ?case by (simp add: call_distances_def)
next
  case (Cons c calls)
  obtain xk ik where c: "c = (xk, ik)" by (cases c)
  let ?w = "maxlen (self_window self)"
  let ?q = "self_quantile self"
  let ?d = "\<bar>row_residual base xk (nat ik)\<bar>"
  let ?s = "self\<lparr>self_window := deque_append (self_window self) ?d\<rparr>"
  let ?ds = "call_distances base calls"
  have hd: "list_all (\<lambda>row. length row = length xk) (self_A base)" "0 \<le> ik" "ik < int (length (self_A base))"
    and tl: "list_all (\<lambda>(xk, ik). list_all (\<lambda>row. length row = length xk) (self_A base)
                               \<and> 0 \<le> ik \<and> ik < int (length (self_A base))) calls"
    using Cons.prems(3) unfolding c by simp_all
  from WindowedQuantile_step[OF Cons.prems(1,2) hd(1) Cons.prems(4) hd(2,3) Cons.prems(5,6,7,8)]
  obtain t0 where
    t0: "np_quantile (most_recent ?w (hist @ [?d])) ?q = Inr t0"
    and step: "WindowedQuantile_select_row_index self xk ik =
                 Inr (if ?d < t0 \<or> np_isclose ?d t0 then ik else SKIP, ?s)"
    by blast
  have s1: "self_A ?s = self_A base" "self_b ?s = self_b base"
    "0 \<le> self_quantile ?s" "self_quantile ?s \<le> 1"
    using Cons.prems by simp_all
  have s2: "maxlen (self_window ?s) = ?w"
    using deque_append_most_recent(2)[OF Cons.prems(8), of ?d] by simp
  have s3: "0 < maxlen (self_window ?s)" using Cons.prems(7) s2 by simp
  have s4: "items (self_window ?s) = most_recent (maxlen (self_window ?s)) (hist @ [?d])"
    using deque_append_most_recent(1)[OF Cons.prems(8), of ?d] s2 by simp
  from Cons.IH[OF s1(1,2) tl Cons.prems(4) s1(3,4) s3 s4]
  obtain outs self' where
    run: "WindowedQuantile_calls ?s calls = Inr (outs, self')"
    and len: "length outs = length calls"
    and win: "items (self_window self') = most_recent ?w ((hist @ [?d]) @ ?ds)"
    and each: "\<forall>k<length calls. \<exists>t.
               np_quantile (most_recent ?w ((hist @ [?d]) @ take (Suc k) ?ds)) ?q = Inr t
             \<and> outs ! k = (if ?ds ! k < t \<or> np_isclose (?ds ! k) t then snd (calls ! k) else SKIP)"
    unfolding s2 by auto
  let ?out0 = "if ?d < t0 \<or> np_isclose ?d t0 then ik else SKIP"
  have cd: "call_distances base (c # calls) = ?d # ?ds"
    by (simp add: call_distances_def c)
  have whole: "WindowedQuantile_calls self (c # calls) = Inr (?out0 # outs, self')"
    unfolding c by (simp add: step run)
  have k: "\<exists>t. np_quantile (most_recent ?w (hist @ take (Suc k) (call_distances base (c # calls)))) ?q = Inr t
             \<and> (?out0 # outs) ! k = (if call_distances base (c # calls) ! k < t
                                \<or> np_isclose (call_distances base (c # calls) ! k) t
                             then snd ((c # calls) ! k) else SKIP)"
    if "k < length (c # calls)" for k
  proof (cases k)
    case 0
    have "snd c = ik" by (simp add: c)
    then show ?thesis using t0 unfolding 0 cd by (intro exI[of _ t0]) simp
  next
    case (Suc k')
    with that have "k' < length calls" by simp
    with each obtain t where
      "np_quantile (most_recent ?w ((hist @ [?d]) @ take (Suc k') ?ds)) ?q = Inr t"
      "outs ! k' = (if ?ds ! k' < t \<or> np_isclose (?ds ! k') t then snd (calls ! k') else SKIP)"
      by blast
    then show ?thesis unfolding Suc cd by simp
  qed
  show ?case
    using whole len win k unfolding cd by (intro exI[of _ "?out0 # outs"] exI[of _ self']) simp
qed

lemma WindowedQuantile_init_ok:
  assumes "0 \<le> (case window_size of None \<Rightarrow> int (self_n_rows base) | Some v \<Rightarrow> v)"
  shows "\<exists>self0. WindowedQuantile_init base p quantile window_size = Inr self0
          \<and> self_A self0 = self_A base \<and> self_b self0 = self_b base
          \<and> self_quantile self0 = (case quantile of None \<Rightarrow> 1 | Some v \<Rightarrow> v)
          \<and> items (self_window self0) = []
          \<and> maxlen (self_window self0) = nat (case window_size of None \<Rightarrow> int (self_n_rows base) | Some v \<Rightarrow> v)"
  using assms
  by (cases window_size)
     (simp_all add: WindowedQuantile_init_def Let_def deque_new_def Quantile_init_fields
        Quantile.defs WindowedQuantile.defs Quantile_init_def Random_init_def Base.defs Random.defs)

text \<open>
  Claim C6.  Let a WindowedQuantile strategy be constructed on a well-shaped system with a
  positive window size \<open>w\<close> (given, or the number of rows by default) and a quantile in
  \<open>[0, 1]\<close>, and let it be called on a sequence of iterates and proposed indices.  Every call
  returns.  The threshold of call number \<open>k\<close> (counting from one) is the quantile of the most
  recent \<open>w\<close> of the first \<open>k\<close> distances computed by step 2: all of them while \<open>k \<le> w\<close>,
  exactly the last \<open>w\<close> from then on, the oldest having been evicted.  After all calls the
  window holds the most recent \<open>w\<close> distances.
\<close>

theorem WindowedQuantile_window_is_fifo:
  assumes "Base_shapes base"
    and "list_all (\<lambda>(xk, ik). length xk = length (self_x0 base) \<and> 0 \<le> ik \<and> ik < int (self_n_rows base)) calls"
    and "0 \<le> (case quantile of None \<Rightarrow> 1 | Some v \<Rightarrow> v)"
    and "(case quantile of None \<Rightarrow> 1 | Some v \<Rightarrow> v) \<le> 1"
    and "0 < (case window_size of None \<Rightarrow> int (self_n_rows base) | Some v \<Rightarrow> v)"
  shows "\<exists>self0 outs self'.
           WindowedQuantile_init base p quantile window_size = Inr self0
         \<and> WindowedQuantile_calls self0 calls = Inr (outs, self')
         \<and> length outs = length calls
         \<and> items (self_window self')
              = most_recent (maxlen (self_window self0)) (call_distances base calls)
         \<and> (\<forall>k<length calls.
               Quantile_distance base (fst (calls ! k)) (snd (calls ! k)) = Inr (call_distances base calls ! k))
         \<and> (\<forall>k<length calls. \<exists>t.
               np_quantile (most_recent (maxlen (self_window self0)) (take (Suc k) (call_distances base calls)))
                 (self_quantile self0) = Inr t
             \<and> outs ! k = (if call_distances base calls ! k < t
                                \<or> np_isclose (call_distances base calls ! k) t
                             then snd (calls ! k) else SKIP))
         \<and> (\<forall>k<length calls. Suc k \<le> maxlen (self_window self0) \<longrightarrow>
               most_recent (maxlen (self_window self0)) (take (Suc k) (call_distances base calls))
                 = take (Suc k) (call_distances base calls))
         \<and> (\<forall>k<length calls. maxlen (self_window self0) \<le> Suc k \<longrightarrow>
               most_recent (maxlen (self_window self0)) (take (Suc k) (call_distances base calls))
                 = take (maxlen (self_window self0))
                     (drop (Suc k - maxlen (self_window self0)) (call_distances base calls)))
         \<and> maxlen (self_window self0)
              = nat (case window_size of None \<Rightarrow> int (self_n_rows base) | Some v \<Rightarrow> v)"
proof -
  let ?ws = "case window_size of None \<Rightarrow> int (self_n_rows base) | Some v \<Rightarrow> v"
  let ?ds = "call_distances base calls"
  have "0 \<le> ?ws" using assms(5) by simp
  from WindowedQuantile_init_ok[OF this, of p quantile] obtain self0 where
    init: "WindowedQuantile_init base p quantile window_size = Inr self0"
    and f: "self_A self0 = self_A base" "self_b self0 = self_b base"
      "self_quantile self0 = (case quantile of None \<Rightarrow> 1 | Some v \<Rightarrow> v)"
      "items (self_window self0) = []" "maxlen (self_window self0) = nat ?ws"
    by blast
  let ?w = "maxlen (self_window self0)"
  have shapes: "length (self_A base) = self_n_rows base" "length (self_b base) = length (self_A base)"
    "list_all (\<lambda>row. length row = length (self_x0 base)) (self_A base)"
    using assms(1) by (simp_all add: Base_shapes_def)
  have calls: "list_all (\<lambda>(xk, ik). list_all (\<lambda>row. length row = length xk) (self_A base)
                               \<and> 0 \<le> ik \<and> ik < int (length (self_A base))) calls"
    using assms(2) shapes(1,3) by (auto simp: list_all_iff)
  have q: "0 \<le> self_quantile self0" "self_quantile self0 \<le> 1"
    using assms(3,4) f(3) by simp_all
  have w: "0 < ?w" using assms(5) f(5) by simp
  have inv: "items (self_window self0) = most_recent ?w []"
    using f(4) by (simp add: most_recent_def)
  from WindowedQuantile_calls_spec[OF f(1,2) calls shapes(2) q w inv]
  obtain outs self' where
    run: "WindowedQuantile_calls self0 calls = Inr (outs, self')"
    and len: "length outs = length calls"
    and win: "items (self_window self') = most_recent ?w ?ds"
    and each: "\<forall>k<length calls. \<exists>t.
               np_quantile (most_recent ?w (take (Suc k) ?ds)) (self_quantile self0) = Inr t
             \<and> outs ! k = (if ?ds ! k < t \<or> np_isclose (?ds ! k) t then snd (calls ! k) else SKIP)"
    by auto
  have lds: "length ?ds = length calls" by (simp add: call_distances_def)
  have dist: "Quantile_distance base (fst (calls ! k)) (snd (calls ! k)) = Inr (?ds ! k)"
    if "k < length calls" for k
  proof -
    obtain xk ik where c: "calls ! k = (xk, ik)" by (cases "calls ! k")
    have "calls ! k \<in> set calls" using that by simp
    with calls c have ok: "list_all (\<lambda>row. length row = length xk) (self_A base)"
      "0 \<le> ik" "ik < int (length (self_A base))"
      by (auto simp: list_all_iff)
    have "?ds ! k = \<bar>row_residual base xk (nat ik)\<bar>"
      using that c by (simp add: call_distances_def)
    then show ?thesis
      using Quantile_distance_ok[OF ok(1) shapes(2) ok(2,3)] c by simp
  qed
  have early: "most_recent ?w (take (Suc k) ?ds) = take (Suc k) ?ds"
    if "k < length calls" "Suc k \<le> ?w" for k
    using that lds by (simp add: most_recent_def)
  have late: "most_recent ?w (take (Suc k) ?ds) = take ?w (drop (Suc k - ?w) ?ds)"
    if "k < length calls" "?w \<le> Suc k" for k
  proof -
    have l: "length (take (Suc k) ?ds) = Suc k" using that(1) lds by simp
    have "drop (Suc k - ?w) (take (Suc k) ?ds) = take (Suc k - (Suc k - ?w)) (drop (Suc k - ?w) ?ds)"
      by (rule drop_take)
    moreover have "Suc k - (Suc k - ?w) = ?w" using that(2) by simp
    ultimately show ?thesis unfolding most_recent_def l by simp
  qed
  show ?thesis
    using init run len win dist each early late f(5) by blast
qed

lemma four_calls_window_two:
  "and_then (WindowedQuantile_init near_min None (Some (1 / 2)) (Some 2))
     (\<lambda>self0. and_then (WindowedQuantile_calls self0 four_calls)
        (\<lambda>(outs, self'). Inr (outs, items (self_window self'))))
   = Inr ([2, 0, - 1, 2], [1, 0])"
  by (simp add: WindowedQuantile_init_def Let_def deque_new_def Quantile_init_def Random_init_def
      Base.defs Random.defs Quantile.defs WindowedQuantile.defs four_calls_def near_min_def
      WindowedQuantile_select_row_index_def WindowedQuantile_distance_def
      WindowedQuantile_threshold_def WindowedQuantile_threshold_distances_def
      Quantile_distance_def np_index_def dot_def row_dot_def deque_append_def
      np_quantile_def lerp_def np_isclose_def)


theorem WindowedQuantile_window_is_fifo_witness:
  "Base_shapes near_min \<and> call_distances near_min four_calls = [1, 0, 1, 0] \<and>
   (\<exists>self0 self'.
      WindowedQuantile_init near_min None (Some (1 / 2)) (Some 2) = Inr self0
    \<and> WindowedQuantile_calls self0 four_calls = Inr ([2, 0, - 1, 2], self')
    \<and> maxlen (self_window self0) = 2
    \<and> items (self_window self') = [1, 0])"
proof -
  have h: "Base_shapes near_min"
    "list_all (\<lambda>(xk, ik). length xk = length (self_x0 near_min) \<and> 0 \<le> ik \<and> ik < int (self_n_rows near_min)) four_calls"
    "0 \<le> (case Some (1 / 2 :: real) of None \<Rightarrow> 1 | Some v \<Rightarrow> v)"
    "(case Some (1 / 2 :: real) of None \<Rightarrow> 1 | Some v \<Rightarrow> v) \<le> 1"
    "0 < (case Some (2 :: int) of None \<Rightarrow> int (self_n_rows near_min) | Some v \<Rightarrow> v)"
    by (simp_all add: Base_shapes_def near_min_def four_calls_def)
  have ds: "call_distances near_min four_calls = [1, 0, 1, 0]"
    by (simp add: call_distances_def four_calls_def near_min_def row_residual_def row_dot_def)
  from WindowedQuantile_window_is_fifo[OF h, of None] obtain self0 outs self' where
    init: "WindowedQuantile_init near_min None (Some (1 / 2)) (Some 2) = Inr self0"
    and run: "WindowedQuantile_calls self0 four_calls = Inr (outs, self')"
    and win: "items (self_window self') = most_recent (maxlen (self_window self0)) (call_distances near_min four_calls)"
    and mx: "maxlen (self_window self0) = nat (case Some (2 :: int) of None \<Rightarrow> int (self_n_rows near_min) | Some v \<Rightarrow> v)"
    by blast
  have w: "maxlen (self_window self0) = 2" using mx by simp
  have outs: "outs = [2, 0, - 1, 2]"
    using four_calls_window_two unfolding init and_then.simps run by simp
  have "items (self_window self') = [1, 0]"
    unfolding win w ds by (simp add: most_recent_def)
  then show ?thesis using h(1) ds init run outs w by blast
qed

section \<open>RandomOrthoGraph: the update of the selectable set\<close>

lemma distinct_remdups_adj_sorted:
  fixes xs :: "nat list"
  assumes "sorted xs"
  shows "distinct (remdups_adj xs)"
  using assms
proof (induction xs rule: remdups_adj.induct)
  case (3 x y xs)
  show ?case
  proof (cases "x = y")
    case True
    then show ?thesis using 3 by simp
  next
    case False
    have "x \<le> y" and "\<forall>z\<in>set xs. y \<le> z" using "3.prems" by auto
    then have "x \<notin> set (y # xs)" using False by auto
    moreover have "distinct (remdups_adj (y # xs))" using 3 False by simp
    ultimately show ?thesis using False by simp
  qed
qed simp_all

lemma np_union1d_props:
  "set (np_union1d a b) = set a \<union> set b"
  "sorted (np_union1d a b)"
  "distinct (np_union1d a b)"
  by (simp_all add: np_union1d_def distinct_remdups_adj_sorted)

lemma np_union1d_set_cong:
  assumes "set a = set a'"
  shows "np_union1d a b = np_union1d a' b"
proof (rule sorted_distinct_set_unique)
  show "set (np_union1d a b) = set (np_union1d a' b)"
    using assms by (simp add: np_union1d_props)
qed (simp_all add: np_union1d_props)

lemma np_setdiff1d_props:
  "set (np_setdiff1d a [ik]) = set a - {ik}"
  "sorted a \<Longrightarrow> sorted (np_setdiff1d a [ik])"
  "distinct a \<Longrightarrow> distinct (np_setdiff1d a [ik])"
  by (auto simp: np_setdiff1d_def intro: sorted_wrt_filter)

lemma set_np_argwhere: "set (np_argwhere v) = {j. j < length v \<and> v ! j \<noteq> 0}"
  by (auto simp: np_argwhere_def)

lemma newly_selectable_dict_ok:
  assumes "newly_selectable_dict G idxs = Inr d"
  shows "d i = (if i \<in> set idxs then Some (np_argwhere (G ! i)) else None)
       \<and> (\<forall>j\<in>set idxs. j < length G)"
  using assms
proof (induction idxs arbitrary: d)
  case Nil
  then show ?case by auto
next
  case (Cons j idxs)
  from Cons.prems obtain v d' where
    v: "newly_selectable G j = Inr v" and d': "newly_selectable_dict G idxs = Inr d'"
    and d: "d = d'(j \<mapsto> v)"
    by (auto simp: and_then_Inr_iff)
  from v have j: "j < length G" "v = np_argwhere (G ! j)"
    by (auto simp: newly_selectable_def np_index_def and_then_Inr_iff split: if_splits)
  from Cons.IH[OF d'] show ?case unfolding d using j by auto
qed

lemma RandomOrthoGraph_init_dict:
  assumes "RandomOrthoGraph_init base p = Inr self0"
  shows "self_A self0 = self_A base"
    and "\<And>i v. self_i_to_newly_selectable self0 i = Some v \<Longrightarrow> set v = ortho_neighbours base i"
proof -
  let ?A = "self_A base"
  let ?G = "map (\<lambda>ri. map (\<lambda>rj. row_dot ri rj) ?A) ?A"
  from assms obtain G d Ax0 r where
    G: "ortho_graph_of ?A = Inr G"
    and d: "newly_selectable_dict G [0..<self_n_rows base] = Inr d"
    and self0: "self0 = Base.extend base (RandomOrthoGraph.fields G d (np_argwhere r)
                 (case p of None \<Rightarrow> replicate (self_n_rows base) 1 | Some w \<Rightarrow> w))"
    unfolding RandomOrthoGraph_init_def by (auto simp: and_then_Inr_iff)
  from G have G': "G = ?G" by (simp add: ortho_graph_of_def split: if_splits)
  show "self_A self0 = self_A base"
    unfolding self0 by (simp add: Base.defs RandomOrthoGraph.defs)
  fix i v assume "self_i_to_newly_selectable self0 i = Some v"
  then have di: "d i = Some v" unfolding self0 by (simp add: Base.defs RandomOrthoGraph.defs)
  from newly_selectable_dict_ok[OF d, of i] di
  have i: "i \<in> set [0..<self_n_rows base]" "v = np_argwhere (G ! i)" "i < length G"
    by (auto split: if_splits)
  have iA: "i < length ?A" using i(3) G' by simp
  have "G ! i = map (\<lambda>rj. row_dot (?A ! i) rj) ?A" unfolding G' using iA by simp
  then show "set v = ortho_neighbours base i"
    unfolding i(2) set_np_argwhere ortho_neighbours_def by auto
qed

lemma RandomOrthoGraph_select_unfold:
  assumes "RandomOrthoGraph_select_row_index self xk ik = Inr (r, self')"
  shows "\<exists>newly. self_i_to_newly_selectable self ik = Some newly
           \<and> r = ik
           \<and> RandomOrthoGraph_update_selectable self ik = Inr self'
           \<and> self' = self\<lparr>self_selectable := np_setdiff1d (np_union1d (self_selectable self) newly) [ik]\<rparr>"
  using assms
  by (auto simp: RandomOrthoGraph_select_row_index_def RandomOrthoGraph_update_selectable_def
      and_then_Inr_iff Let_def split: if_splits option.splits)

lemma RandomOrthoGraph_calls_frame:
  assumes "RandomOrthoGraph_calls self calls = Inr (outs, self')"
  shows "self_i_to_newly_selectable self' = self_i_to_newly_selectable self"
  using assms
proof (induction calls arbitrary: self outs)
  case Nil
  then show ?case by simp
next
  case (Cons c calls)
  obtain xk ik where c: "c = (xk, ik)" by (cases c)
  from Cons.prems obtain r s rs where
    step: "RandomOrthoGraph_select_row_index self xk ik = Inr (r, s)"
    and rest: "RandomOrthoGraph_calls s calls = Inr (rs, self')"
    unfolding c by (auto simp: and_then_Inr_iff)
  from RandomOrthoGraph_select_unfold[OF step]
  have "self_i_to_newly_selectable s = self_i_to_newly_selectable self" by auto
  with Cons.IH[OF rest] show ?case by simp
qed

lemma RandomOrthoGraph_calls_absent:
  assumes "RandomOrthoGraph_calls self calls = Inr (outs, self')"
    and "\<And>j v. self_i_to_newly_selectable self j = Some v \<Longrightarrow> set v = N j"
    and "ik \<notin> set (self_selectable self)"
    and "\<forall>j\<in>set outs. ik \<notin> N j"
  shows "ik \<notin> set (self_selectable self')"
  using assms
proof (induction calls arbitrary: self outs)
  case Nil
  then show ?case by simp
next
  case (Cons c calls)
  obtain xk j where c: "c = (xk, j)" by (cases c)
  from Cons.prems(1) obtain r s rs where
    step: "RandomOrthoGraph_select_row_index self xk j = Inr (r, s)"
    and rest: "RandomOrthoGraph_calls s calls = Inr (rs, self')"
    and outs: "outs = r # rs"
    unfolding c by (auto simp: and_then_Inr_iff)
  from RandomOrthoGraph_select_unfold[OF step] obtain newly where
    n: "self_i_to_newly_selectable self j = Some newly" "r = j"
    and s: "s = self\<lparr>self_selectable := np_setdiff1d (np_union1d (self_selectable self) newly) [j]\<rparr>"
    by blast
  have "set newly = N j" using Cons.prems(2)[OF n(1)] .
  moreover have "ik \<notin> N j" using Cons.prems(4) outs n(2) by simp
  ultimately have a: "ik \<notin> set (self_selectable s)"
    unfolding s using Cons.prems(3) by (simp add: np_setdiff1d_props np_union1d_props)
  have d: "\<And>j v. self_i_to_newly_selectable s j = Some v \<Longrightarrow> set v = N j"
    unfolding s using Cons.prems(2) by simp
  show ?case
    using Cons.IH[OF rest d a] Cons.prems(4) outs by simp
qed

text \<open>
  Claim C7.  Take a RandomOrthoGraph strategy as its constructor built it, after any
  sequence of selections.  When a selection returns \<open>ik\<close>, the new selectable set is the
  previous one united with the neighbours of \<open>ik\<close> in \<open>G\<close>, minus \<open>ik\<close>; it is stored sorted
  and without repetition and is the same for every arrangement of the previous set with
  the same elements; \<open>ik\<close> is not in it, and stays out of the selectable set through every
  run of later selections none of which has \<open>ik\<close> as a neighbour.
\<close>

theorem RandomOrthoGraph_selectable_update:
  assumes "RandomOrthoGraph_init base p = Inr self0"
    and "RandomOrthoGraph_calls self0 earlier = Inr (outs1, self1)"
    and "RandomOrthoGraph_select_row_index self1 xk ik = Inr (r, self2)"
    and "RandomOrthoGraph_calls self2 later = Inr (outs2, self3)"
  shows "r = ik
       \<and> set (self_selectable self2) = (set (self_selectable self1) \<union> ortho_neighbours base ik) - {ik}
       \<and> ik \<notin> set (self_selectable self2)
       \<and> sorted (self_selectable self2) \<and> distinct (self_selectable self2)
       \<and> (\<forall>sel. set sel = set (self_selectable self1) \<longrightarrow>
             RandomOrthoGraph_update_selectable (self1\<lparr>self_selectable := sel\<rparr>) ik = Inr self2)
       \<and> ((\<forall>j\<in>set outs2. ik \<notin> ortho_neighbours base j) \<longrightarrow> ik \<notin> set (self_selectable self3))"
proof -
  have d1: "self_i_to_newly_selectable self1 = self_i_to_newly_selectable self0"
    using RandomOrthoGraph_calls_frame[OF assms(2)] .
  have nb1: "set v = ortho_neighbours base j" if "self_i_to_newly_selectable self1 j = Some v" for j v
    using RandomOrthoGraph_init_dict(2)[OF assms(1)] that unfolding d1 by simp
  from RandomOrthoGraph_select_unfold[OF assms(3)] obtain newly where
    n: "self_i_to_newly_selectable self1 ik = Some newly" "r = ik"
    and s2: "self2 = self1\<lparr>self_selectable := np_setdiff1d (np_union1d (self_selectable self1) newly) [ik]\<rparr>"
    by blast
  have newly: "set newly = ortho_neighbours base ik" using nb1[OF n(1)] .
  have sel2: "self_selectable self2 = np_setdiff1d (np_union1d (self_selectable self1) newly) [ik]"
    unfolding s2 by simp
  have eq: "set (self_selectable self2) = (set (self_selectable self1) \<union> ortho_neighbours base ik) - {ik}"
    unfolding sel2 by (simp add: np_setdiff1d_props np_union1d_props newly)
  have absent: "ik \<notin> set (self_selectable self2)" unfolding eq by simp
  have sd: "sorted (self_selectable self2)" "distinct (self_selectable self2)"
    unfolding sel2 by (simp_all add: np_setdiff1d_props np_union1d_props)
  have order: "RandomOrthoGraph_update_selectable (self1\<lparr>self_selectable := sel\<rparr>) ik = Inr self2"
    if "set sel = set (self_selectable self1)" for sel
    unfolding RandomOrthoGraph_update_selectable_def s2
    using n(1) np_union1d_set_cong[OF that, of newly] by (simp add: Let_def)
  have nb2: "set v = ortho_neighbours base j" if "self_i_to_newly_selectable self2 j = Some v" for j v
    using that nb1 unfolding s2 by simp
  have later: "ik \<notin> set (self_selectable self3)" if "\<forall>j\<in>set outs2. ik \<notin> ortho_neighbours base j"
    using RandomOrthoGraph_calls_absent[OF assms(4) nb2 absent that] .
  show ?thesis
    using n(2) eq absent sd order later by blast
qed

lemma chain_graph:
  "ortho_graph_of (self_A chain) = Inr [[1, 1, 0], [1, 2, 1], [0, 1, 1]]"
  by (simp add: ortho_graph_of_def chain_def row_dot_def)

lemma chain_dict:
  "newly_selectable_dict [[1, 1, 0], [1, 2, 1], [0, 1, 1]] [0..<self_n_rows chain]
     = Inr [2 \<mapsto> [1, 2], 1 \<mapsto> [0, 1, 2], 0 \<mapsto> [0, 1]]"
proof -
  have n: "[0..<self_n_rows chain] = [0, 1, 2]"
    by (simp add: chain_def eval_nat_numeral)
  have a: "newly_selectable [[1, 1, 0], [1, 2, 1], [0, 1, 1]] 0 = Inr [0, 1]"
    "newly_selectable [[1, 1, 0], [1, 2, 1], [0, 1, 1]] (Suc 0) = Inr [0, 1, 2]"
    "newly_selectable [[1, 1, 0], [1, 2, 1], [0, 1, 1]] 2 = Inr [1, 2]"
    by (simp_all add: newly_selectable_def np_index_def np_argwhere_def eval_nat_numeral)
  show ?thesis unfolding n by (simp add: a)
qed

lemma chain_violated:
  "matvec (self_A chain) (self_x0 chain) = Inr [0, 0, 0]"
  "np_sub [0, 0, 0] (self_b chain) = Inr [- 1, - 1, - 1]"
  "np_argwhere [- 1, - 1, - 1] = [0, 1, 2]"
  "replicate (self_n_rows chain) (1::real) = [1, 1, 1]"
  by (simp_all add: matvec_def np_sub_def row_dot_def chain_def np_argwhere_def eval_nat_numeral)

lemma chain_init:
  "RandomOrthoGraph_init chain None =
     Inr (Base.extend chain
            (RandomOrthoGraph.fields [[1, 1, 0], [1, 2, 1], [0, 1, 1]]
               [2 \<mapsto> [1, 2], 1 \<mapsto> [0, 1, 2], 0 \<mapsto> [0, 1]] [0, 1, 2] [1, 1, 1]))"
  unfolding RandomOrthoGraph_init_def chain_graph and_then.simps chain_dict chain_violated
  by simp

lemma chain_weights:
  "np_take [1, 1, 1 :: real] [0, 1, 2] = Inr [1, 1, 1]"
  "np_take [1, 1, 1 :: real] [1, 2] = Inr [1, 1]"
  "\<not> choice_refuses [0, 1, 2] (map (\<lambda>w. np_divide w (sum_list [1, 1, 1])) [1, 1, 1])"
  "\<not> choice_refuses [1, 2] (map (\<lambda>w. np_divide w (sum_list [1, 1])) [1, 1])"
  by (simp_all add: choice_refuses_def np_divide_def)

lemma chain_select_0:
  assumes "self_i_to_newly_selectable s 0 = Some [0, 1]"
    and "self_selectable s = [0, 1, 2]" and "self_weights s = [1, 1, 1]"
  shows "RandomOrthoGraph_select_row_index s xk 0 = Inr (0, s\<lparr>self_selectable := [1, 2]\<rparr>)"
  unfolding RandomOrthoGraph_select_row_index_def RandomOrthoGraph_update_selectable_def assms
    chain_weights and_then.simps Let_def
  using chain_weights(3) by (simp add: np_union1d_def np_setdiff1d_def)

lemma chain_select_2:
  assumes "self_i_to_newly_selectable s 2 = Some [1, 2]"
    and "self_selectable s = [1, 2]" and "self_weights s = [1, 1, 1]"
  shows "RandomOrthoGraph_select_row_index s xk 2 = Inr (2, s\<lparr>self_selectable := [1]\<rparr>)"
  unfolding RandomOrthoGraph_select_row_index_def RandomOrthoGraph_update_selectable_def assms
    chain_weights and_then.simps Let_def
  using chain_weights(4) by (simp add: np_union1d_def np_setdiff1d_def)


theorem RandomOrthoGraph_selectable_update_witness:
  "\<exists>self0 self2 self3.
      RandomOrthoGraph_init chain None = Inr self0
    \<and> RandomOrthoGraph_calls self0 [] = Inr ([], self0)
    \<and> self_selectable self0 = [0, 1, 2]
    \<and> RandomOrthoGraph_select_row_index self0 [0, 0] 0 = Inr (0, self2)
    \<and> self_selectable self2 = [1, 2]
    \<and> set (self_selectable self2) = (set (self_selectable self0) \<union> ortho_neighbours chain 0) - {0}
    \<and> RandomOrthoGraph_calls self2 [([1, 0], 2)] = Inr ([2], self3)
    \<and> 0 \<notin> ortho_neighbours chain 2
    \<and> self_selectable self3 = [1]
    \<and> 0 \<notin> set (self_selectable self3)"
proof -
  define self0 where "self0 = Base.extend chain
            (RandomOrthoGraph.fields [[1, 1, 0], [1, 2, 1], [0, 1, 1]]
               [2 \<mapsto> [1, 2], 1 \<mapsto> [0, 1, 2], 0 \<mapsto> [0, 1 :: nat]] [0, 1, 2] [1, 1, 1])"
  define self2 where "self2 = self0\<lparr>self_selectable := [1, 2]\<rparr>"
  define self3 where "self3 = self2\<lparr>self_selectable := [1]\<rparr>"
  have f0: "self_i_to_newly_selectable self0 0 = Some [0, 1]"
    "self_i_to_newly_selectable self0 2 = Some [1, 2]"
    "self_selectable self0 = [0, 1, 2]" "self_weights self0 = [1, 1, 1]"
    by (simp_all add: self0_def Base.defs RandomOrthoGraph.defs)
  have f2: "self_i_to_newly_selectable self2 2 = Some [1, 2]"
    "self_selectable self2 = [1, 2]" "self_weights self2 = [1, 1, 1]"
    by (simp_all add: self2_def f0)
  have f3: "self_selectable self3 = [1]" by (simp add: self3_def)
  have init: "RandomOrthoGraph_init chain None = Inr self0"
    unfolding self0_def by (rule chain_init)
  have earlier: "RandomOrthoGraph_calls self0 [] = Inr ([], self0)" by simp
  have step: "RandomOrthoGraph_select_row_index self0 [0, 0] 0 = Inr (0, self2)"
    unfolding self2_def by (rule chain_select_0[OF f0(1,3,4)])
  have step2: "RandomOrthoGraph_select_row_index self2 [1, 0] 2 = Inr (2, self3)"
    unfolding self3_def by (rule chain_select_2[OF f2])
  have later: "RandomOrthoGraph_calls self2 [([1, 0], 2)] = Inr ([2], self3)"
    by (simp add: step2)
  have nb: "0 \<notin> ortho_neighbours chain 2"
    by (simp add: ortho_neighbours_def chain_def row_dot_def)
  from RandomOrthoGraph_selectable_update[OF init earlier step later]
  have "set (self_selectable self2) = (set (self_selectable self0) \<union> ortho_neighbours chain 0) - {0}"
    and "(\<forall>j\<in>set [2]. 0 \<notin> ortho_neighbours chain j) \<longrightarrow> 0 \<notin> set (self_selectable self3)"
    by blast+
  then show ?thesis
    using init earlier step later f0(3) f2(2) f3 nb
    by (intro exI[of _ self0] exI[of _ self2] exI[of _ self3]) simp
qed

section \<open>Lookahead: the cached index is the second step of the best pair\<close>

lemma tuple_lt_Num:
  "tuple_lt (Num a, Num b) (Num c, Num d) \<longleftrightarrow> a < c \<or> (a = c \<and> b < d)"
  by auto

lemma tuple_lt_initial: "tuple_lt (Num a, Num b) (PosInf, PosInf)"
  by simp

lemma Lookahead_candidate_key:
  assumes "Lookahead_candidate upd self ik = Inr (ik2, key)"
  shows "\<exists>a b. key = (Num a, Num b)"
  using assms unfolding Lookahead_candidate_def by (auto simp: and_then_Inr_iff)



lemma Lookahead_loop_invariant:
  assumes "k \<le> n"
    and "Lookahead_loop upd self [k..<n] (bi, ni, bk) = Inr (bi', ni', bk')"
    and "(k = 0 \<and> bk = (PosInf, PosInf)) \<or>
         (\<exists>best ik2. best < k \<and> bi = int best \<and> ni = int ik2
            \<and> Lookahead_candidate upd self best = Inr (ik2, bk)
            \<and> (\<forall>j<k. \<exists>ik2' key'. Lookahead_candidate upd self j = Inr (ik2', key')
                    \<and> \<not> tuple_lt key' bk \<and> (j < best \<longrightarrow> tuple_lt bk key')))"
    and "0 < n"
  shows "\<exists>best ik2. best < n \<and> bi' = int best \<and> ni' = int ik2
            \<and> Lookahead_candidate upd self best = Inr (ik2, bk')
            \<and> (\<forall>j<n. \<exists>ik2' key'. Lookahead_candidate upd self j = Inr (ik2', key')
                    \<and> \<not> tuple_lt key' bk' \<and> (j < best \<longrightarrow> tuple_lt bk' key'))"
  using assms
proof (induction "n - k" arbitrary: k bi ni bk)
  case 0
  then have kn: "k = n" by simp
  from "0.prems"(2) have st: "bi' = bi" "ni' = ni" "bk' = bk" unfolding kn by simp_all
  from "0.prems"(3,4) show ?case unfolding kn st by auto
next
  case (Suc d)
  then have lt: "k < n" by simp
  have up: "[k..<n] = k # [Suc k..<n]" using lt by (rule upt_conv_Cons)
  from Suc.prems(2) obtain ik2 rn where
    cand: "Lookahead_candidate upd self k = Inr (ik2, rn)"
    and rest: "(if tuple_lt rn bk
                then Lookahead_loop upd self [Suc k..<n] (int k, int ik2, rn)
                else Lookahead_loop upd self [Suc k..<n] (bi, ni, bk)) = Inr (bi', ni', bk')"
    unfolding up by (auto simp: and_then_Inr_iff)
  from Lookahead_candidate_key[OF cand] obtain a b where rn: "rn = (Num a, Num b)" by blast
  have d: "d = n - Suc k" using Suc.hyps(2) by simp
  have le: "Suc k \<le> n" using lt by simp
  show ?case
  proof (cases "tuple_lt rn bk")
    case True
    with rest have run: "Lookahead_loop upd self [Suc k..<n] (int k, int ik2, rn) = Inr (bi', ni', bk')"
      by simp
    have older: "\<exists>ik2' key'. Lookahead_candidate upd self j = Inr (ik2', key')
                    \<and> \<not> tuple_lt key' rn \<and> (j < k \<longrightarrow> tuple_lt rn key')"
      if "j < Suc k" for j
    proof (cases "j = k")
      case True
      then show ?thesis using cand unfolding rn by auto
    next
      case False
      with that have jk: "j < k" by simp
      then have "k \<noteq> 0" by simp
      with Suc.prems(3) obtain best i2 where
        b: "Lookahead_candidate upd self best = Inr (i2, bk)"
        and all: "\<forall>j<k. \<exists>ik2' key'. Lookahead_candidate upd self j = Inr (ik2', key')
                    \<and> \<not> tuple_lt key' bk \<and> (j < best \<longrightarrow> tuple_lt bk key')"
        by auto
      from Lookahead_candidate_key[OF b] obtain c e where bk: "bk = (Num c, Num e)" by blast
      from all jk obtain i2' key' where
        j: "Lookahead_candidate upd self j = Inr (i2', key')" "\<not> tuple_lt key' bk"
        by blast
      from Lookahead_candidate_key[OF j(1)] obtain f g where key': "key' = (Num f, Num g)" by blast
      have "\<not> tuple_lt key' rn \<and> tuple_lt rn key'"
        using True j(2) unfolding rn bk key' tuple_lt_Num by auto
      then show ?thesis using j(1) by auto
    qed
    have inv: "(Suc k = 0 \<and> rn = (PosInf, PosInf)) \<or>
         (\<exists>best i2. best < Suc k \<and> int k = int best \<and> int ik2 = int i2
            \<and> Lookahead_candidate upd self best = Inr (i2, rn)
            \<and> (\<forall>j<Suc k. \<exists>ik2' key'. Lookahead_candidate upd self j = Inr (ik2', key')
                    \<and> \<not> tuple_lt key' rn \<and> (j < best \<longrightarrow> tuple_lt rn key')))"
      using cand older by (intro disjI2 exI[of _ k] exI[of _ ik2]) auto
    show ?thesis by (rule Suc.hyps(1)[OF d le run inv Suc.prems(4)])
  next
    case False
    with rest have run: "Lookahead_loop upd self [Suc k..<n] (bi, ni, bk) = Inr (bi', ni', bk')"
      by simp
    have "bk \<noteq> (PosInf, PosInf)" using False unfolding rn by auto
    with Suc.prems(3) obtain best i2 where
      b: "best < k" "bi = int best" "ni = int i2" "Lookahead_candidate upd self best = Inr (i2, bk)"
      and all: "\<forall>j<k. \<exists>ik2' key'. Lookahead_candidate upd self j = Inr (ik2', key')
                    \<and> \<not> tuple_lt key' bk \<and> (j < best \<longrightarrow> tuple_lt bk key')"
      by auto
    have older: "\<exists>ik2' key'. Lookahead_candidate upd self j = Inr (ik2', key')
                    \<and> \<not> tuple_lt key' bk \<and> (j < best \<longrightarrow> tuple_lt bk key')"
      if "j < Suc k" for j
    proof (cases "j = k")
      case True
      then show ?thesis using cand False b(1) by auto
    next
      case False
      with that have "j < k" by simp
      with all show ?thesis by blast
    qed
    have inv: "(Suc k = 0 \<and> bk = (PosInf, PosInf)) \<or>
         (\<exists>best i2. best < Suc k \<and> bi = int best \<and> ni = int i2
            \<and> Lookahead_candidate upd self best = Inr (i2, bk)
            \<and> (\<forall>j<Suc k. \<exists>ik2' key'. Lookahead_candidate upd self j = Inr (ik2', key')
                    \<and> \<not> tuple_lt key' bk \<and> (j < best \<longrightarrow> tuple_lt bk key')))"
      using b older by (intro disjI2 exI[of _ best] exI[of _ i2]) auto
    show ?thesis by (rule Suc.hyps(1)[OF d le run inv Suc.prems(4)])
  qed
qed

lemma Lookahead_candidate_returns:
  assumes sh: "Base_shapes self"
    and upd: "\<forall>x j. length x = length (self_x0 self) \<and> j < self_n_rows self
                \<longrightarrow> (\<exists>x'. upd x j = Inr x' \<and> length x' = length x)"
    and ik: "ik < self_n_rows self"
  shows "\<exists>r. Lookahead_candidate upd self ik = Inr r"
proof -
  let ?m = "self_n_rows self"
  have A: "length (self_A self) = ?m" "length (self_b self) = length (self_A self)"
    and rows: "list_all (\<lambda>row. length row = length (self_x0 self)) (self_A self)"
    and xk: "length (self_xk self) = length (self_x0 self)"
    using sh by (simp_all add: Base_shapes_def)
  have res: "residual_at self x = Inr (map (row_residual self x) [0..<?m])"
    if "length x = length (self_x0 self)" for x
    using residual_at_ok[of x self] rows A that by simp
  from upd xk ik obtain x1 where
    x1: "upd (self_xk self) ik = Inr x1" "length x1 = length (self_x0 self)"
    by force
  let ?r1 = "map (row_residual self x1) [0..<?m]"
  have "np_abs ?r1 \<noteq> []" using ik by (simp add: np_abs_def)
  from np_argmax_spec[OF this] obtain ik2 where
    ik2: "np_argmax (np_abs ?r1) = Inr ik2" "ik2 < ?m"
    by (auto simp: np_abs_def)
  from upd x1(2) ik2(2) obtain x2 where
    x2: "upd x1 ik2 = Inr x2" "length x2 = length (self_x0 self)"
    by force
  show ?thesis
    unfolding Lookahead_candidate_def
    by (simp add: x1(1) res[OF x1(2)] ik2(1) x2(1) res[OF x2(2)])
qed

lemma Lookahead_loop_returns:
  assumes "\<forall>ik\<in>set iks. \<exists>r. Lookahead_candidate upd self ik = Inr r"
  shows "\<exists>st'. Lookahead_loop upd self iks st = Inr st'"
  using assms
proof (induction iks arbitrary: st)
  case Nil
  show ?case by (cases st) auto
next
  case (Cons ik iks)
  obtain bi ni bk where st: "st = (bi, ni, bk)" by (metis prod_cases3)
  from Cons.prems obtain ik2 rn where c: "Lookahead_candidate upd self ik = Inr (ik2, rn)"
    by force
  have rest: "\<exists>st'. Lookahead_loop upd self iks s = Inr st'" for s
    using Cons.IH[of s] Cons.prems by simp
  show ?case
    unfolding st using rest by (simp add: c)
qed

text \<open>
  What a fresh search returns, on any system and for any projection step: the first row
  whose candidate pair is smallest, with the second-step index of that row in the cache.
\<close>

lemma Lookahead_search_result:
  assumes "self_next_i self = None" and "0 < self_n_rows self"
  shows "(Base_shapes self \<and>
          (\<forall>x j. length x = length (self_x0 self) \<and> j < self_n_rows self
                \<longrightarrow> (\<exists>x'. upd x j = Inr x' \<and> length x' = length x))
          \<longrightarrow> (\<exists>i self'. Lookahead_select_row_index upd self xk = Inr (i, self')))
       \<and> (\<forall>i self'. Lookahead_select_row_index upd self xk = Inr (i, self') \<longrightarrow>
            (\<exists>best ik2 key.
                best < self_n_rows self \<and> i = int best
              \<and> Lookahead_candidate upd self best = Inr (ik2, key)
              \<and> (\<forall>j<self_n_rows self. \<exists>ik2' key'.
                    Lookahead_candidate upd self j = Inr (ik2', key')
                  \<and> \<not> tuple_lt key' key \<and> (j < best \<longrightarrow> tuple_lt key key'))
              \<and> self' = self\<lparr>self_next_i := Some (int ik2)\<rparr>
              \<and> (\<forall>upd' xk' x'.
                    Lookahead_select_row_index upd' (self'\<lparr>self_xk := x'\<rparr>) xk'
                      = Inr (int ik2, self'\<lparr>self_xk := x', self_next_i := None\<rparr>))
              \<and> (\<forall>upd' xk' other. self_next_i other = self_next_i self' \<longrightarrow>
                    Lookahead_select_row_index upd' other xk'
                      = Inr (int ik2, other\<lparr>self_next_i := None\<rparr>))))"
proof (intro conjI impI allI)
  assume wf: "Base_shapes self \<and>
          (\<forall>x j. length x = length (self_x0 self) \<and> j < self_n_rows self
                \<longrightarrow> (\<exists>x'. upd x j = Inr x' \<and> length x' = length x))"
  have "\<forall>ik\<in>set [0..<self_n_rows self]. \<exists>r. Lookahead_candidate upd self ik = Inr r"
    using Lookahead_candidate_returns[of self upd] wf by auto
  from Lookahead_loop_returns[OF this, of "(- 1, - 1, (PosInf, PosInf))"]
  obtain bi ni bk where
    "Lookahead_loop upd self [0..<self_n_rows self] (- 1, - 1, (PosInf, PosInf)) = Inr (bi, ni, bk)"
    by (metis prod_cases3)
  then show "\<exists>i self'. Lookahead_select_row_index upd self xk = Inr (i, self')"
    unfolding Lookahead_select_row_index_def by (simp add: assms(1))
next
  fix i self'
  assume sel: "Lookahead_select_row_index upd self xk = Inr (i, self')"
  then obtain ni bk where
    loop: "Lookahead_loop upd self [0..<self_n_rows self] (- 1, - 1, (PosInf, PosInf)) = Inr (i, ni, bk)"
    and self': "self' = self\<lparr>self_next_i := Some ni\<rparr>"
    unfolding Lookahead_select_row_index_def by (auto simp: assms(1) and_then_Inr_iff)
  have start: "(0 = (0::nat) \<and> (PosInf, PosInf) = (PosInf, PosInf)) \<or>
         (\<exists>best ik2. best < 0 \<and> - 1 = int best \<and> - 1 = int ik2
            \<and> Lookahead_candidate upd self best = Inr (ik2, (PosInf, PosInf))
            \<and> (\<forall>j<0. \<exists>ik2' key'. Lookahead_candidate upd self j = Inr (ik2', key')
                    \<and> \<not> tuple_lt key' (PosInf, PosInf) \<and> (j < best \<longrightarrow> tuple_lt (PosInf, PosInf) key')))"
    by simp
  from Lookahead_loop_invariant[OF _ loop start assms(2)] obtain best ik2 where
    b: "best < self_n_rows self" "i = int best" "ni = int ik2"
      "Lookahead_candidate upd self best = Inr (ik2, bk)"
      "\<forall>j<self_n_rows self. \<exists>ik2' key'. Lookahead_candidate upd self j = Inr (ik2', key')
                    \<and> \<not> tuple_lt key' bk \<and> (j < best \<longrightarrow> tuple_lt bk key')"
    by auto
  have s: "self' = self\<lparr>self_next_i := Some (int ik2)\<rparr>" using self' b(3) by simp
  have nxt: "Lookahead_select_row_index upd' other xk' = Inr (int ik2, other\<lparr>self_next_i := None\<rparr>)"
    if "self_next_i other = self_next_i self'" for upd' xk' other
    using that unfolding Lookahead_select_row_index_def s by simp
  have nxt': "Lookahead_select_row_index upd' (self'\<lparr>self_xk := x'\<rparr>) xk'
                = Inr (int ik2, self'\<lparr>self_xk := x', self_next_i := None\<rparr>)" for upd' xk' x'
    using nxt[of "self'\<lparr>self_xk := x'\<rparr>" upd' xk'] by simp
  show "\<exists>best ik2 key.
                best < self_n_rows self \<and> i = int best
              \<and> Lookahead_candidate upd self best = Inr (ik2, key)
              \<and> (\<forall>j<self_n_rows self. \<exists>ik2' key'.
                    Lookahead_candidate upd self j = Inr (ik2', key')
                  \<and> \<not> tuple_lt key' key \<and> (j < best \<longrightarrow> tuple_lt key key'))
              \<and> self' = self\<lparr>self_next_i := Some (int ik2)\<rparr>
              \<and> (\<forall>upd' xk' x'.
                    Lookahead_select_row_index upd' (self'\<lparr>self_xk := x'\<rparr>) xk'
                      = Inr (int ik2, self'\<lparr>self_xk := x', self_next_i := None\<rparr>))
              \<and> (\<forall>upd' xk' other. self_next_i other = self_next_i self' \<longrightarrow>
                    Lookahead_select_row_index upd' other xk'
                      = Inr (int ik2, other\<lparr>self_next_i := None\<rparr>))"
    using b(1,2,4,5) s nxt nxt' by (intro exI[of _ best] exI[of _ ik2] exI[of _ bk]) blast
qed

lemma unit_rows_fields:
  "self_A (Lookahead_init unit_rows) = [[1, 0], [0, 1]]"
  "self_b (Lookahead_init unit_rows) = [1, 2]"
  "self_xk (Lookahead_init unit_rows) = [0, 0]"
  "self_x0 (Lookahead_init unit_rows) = [0, 0]"
  "self_n_rows (Lookahead_init unit_rows) = 2"
  "self_row_norms (Lookahead_init unit_rows) = [1, 1]"
  "self_next_i (Lookahead_init unit_rows) = None"
  by (simp_all add: Lookahead_init_def unit_rows_def Base.defs Lookahead.defs)

lemma unit_rows_update:
  "update_iterate unit_rows [0, 0] 0 = Inr [1, 0]"
  "update_iterate unit_rows [0, 0] (Suc 0) = Inr [0, 2]"
  "update_iterate unit_rows [1, 0] (Suc 0) = Inr [1, 2]"
  "update_iterate unit_rows [0, 2] 0 = Inr [1, 2]"
  by (simp_all add: update_iterate_def unit_rows_def np_index_def dot_def row_dot_def)

lemma unit_rows_residual:
  "residual_at (Lookahead_init unit_rows) [1, 0] = Inr [0, 2]"
  "residual_at (Lookahead_init unit_rows) [0, 2] = Inr [1, 0]"
  "residual_at (Lookahead_init unit_rows) [1, 2] = Inr [0, 0]"
  by (simp_all add: residual_at_def unit_rows_fields matvec_def np_sub_def row_dot_def)

lemma unit_rows_argmax:
  "np_argmax (np_abs [0, 2]) = Inr (Suc 0)"
  "np_argmax (np_abs [1, 0]) = Inr 0"
  by (simp_all add: np_argmax_def np_abs_def)

lemma unit_rows_norm:
  "np_norm [0, 2] = 2" "np_norm [1, 0] = 1" "np_norm [0, 0] = 0"
  by (simp_all add: np_norm_def)

lemma unit_rows_candidates:
  "Lookahead_candidate (update_iterate unit_rows) (Lookahead_init unit_rows) 0
     = Inr (Suc 0, (Num 0, Num 2))"
  "Lookahead_candidate (update_iterate unit_rows) (Lookahead_init unit_rows) (Suc 0)
     = Inr (0, (Num 0, Num 1))"
  unfolding Lookahead_candidate_def
  by (simp_all add: unit_rows_fields unit_rows_update unit_rows_residual unit_rows_argmax unit_rows_norm)

lemma unit_rows_search:
  "Lookahead_select_row_index (update_iterate unit_rows) (Lookahead_init unit_rows) [0, 0]
     = Inr (1, (Lookahead_init unit_rows)\<lparr>self_next_i := Some 0\<rparr>)"
proof -
  have n: "[0..<self_n_rows (Lookahead_init unit_rows)] = [0, Suc 0]"
    by (simp add: unit_rows_fields eval_nat_numeral)
  show ?thesis
    unfolding Lookahead_select_row_index_def n
    by (simp add: unit_rows_fields unit_rows_candidates)
qed

lemma update_iterate_unit_rows_ok:
  assumes "length x = length (self_x0 (Lookahead_init unit_rows))"
    and "j < self_n_rows (Lookahead_init unit_rows)"
  shows "\<exists>x'. update_iterate unit_rows x j = Inr x' \<and> length x' = length x"
proof -
  from assms(1) obtain u v where x: "x = [u, v]"
    unfolding unit_rows_fields by (auto simp: length_Suc_conv numeral_2_eq_2)
  from assms(2) have "j = 0 \<or> j = Suc 0" unfolding unit_rows_fields by auto
  then show ?thesis
    unfolding x by (auto simp: update_iterate_def unit_rows_def np_index_def dot_def row_dot_def)
qed

lemma np_norm_rows:
  "np_norm (map f [0..<n]) = sqrt (\<Sum>j\<leftarrow>[0..<n]. (f j)\<^sup>2)"
  by (simp add: np_norm_def comp_def power2_eq_square)

lemma Lookahead_candidate_spec:
  assumes sh: "Base_shapes self"
    and upd: "\<forall>x j. length x = length (self_x0 self) \<and> j < self_n_rows self
                \<longrightarrow> (\<exists>x'. upd x j = Inr x' \<and> length x' = length x)"
    and ik: "ik < self_n_rows self"
    and cand: "Lookahead_candidate upd self ik = Inr (ik2, key)"
  shows "\<exists>a b. key = (Num a, Num b) \<and> two_step_lookahead upd self ik ik2 a b"
proof -
  let ?m = "self_n_rows self"
  have A: "length (self_A self) = ?m" "length (self_b self) = length (self_A self)"
    and rows: "list_all (\<lambda>row. length row = length (self_x0 self)) (self_A self)"
    and xk: "length (self_xk self) = length (self_x0 self)"
    using sh by (simp_all add: Base_shapes_def)
  have res: "residual_at self x = Inr (map (row_residual self x) [0..<?m])"
    if "length x = length (self_x0 self)" for x
    using residual_at_ok[of x self] rows A that by simp
  from cand obtain x1 r1 x2 r2 where
    c: "upd (self_xk self) ik = Inr x1" "residual_at self x1 = Inr r1"
      "np_argmax (np_abs r1) = Inr ik2" "upd x1 ik2 = Inr x2" "residual_at self x2 = Inr r2"
      "key = (Num (np_norm r2), Num (np_norm r1))"
    unfolding Lookahead_candidate_def by (auto simp: and_then_Inr_iff)
  from upd xk ik c(1) have l1: "length x1 = length (self_x0 self)" by force
  have r1: "r1 = map (row_residual self x1) [0..<?m]" using res[OF l1] c(2) by simp
  have ne: "np_abs r1 \<noteq> []" using ik unfolding r1 by (simp add: np_abs_def)
  from np_argmax_spec[OF ne] c(3) have
    i2: "ik2 < length (np_abs r1)" "\<forall>j<length (np_abs r1). np_abs r1 ! j \<le> np_abs r1 ! ik2"
      "\<forall>j<ik2. np_abs r1 ! j < np_abs r1 ! ik2"
    by auto
  have len: "length (np_abs r1) = ?m" unfolding r1 by (simp add: np_abs_def)
  have nth: "np_abs r1 ! j = \<bar>row_residual self x1 j\<bar>" if "j < ?m" for j
    using that unfolding r1 by (simp add: np_abs_def)
  have i2m: "ik2 < ?m" using i2(1) len by simp
  have mx: "\<forall>j<?m. \<bar>row_residual self x1 j\<bar> \<le> \<bar>row_residual self x1 ik2\<bar>"
    using i2(2) i2m nth len by auto
  have fst: "\<forall>j<ik2. \<bar>row_residual self x1 j\<bar> < \<bar>row_residual self x1 ik2\<bar>"
    using i2(3) i2m nth by auto
  from upd l1 i2m c(4) have l2: "length x2 = length (self_x0 self)" by force
  have r2: "r2 = map (row_residual self x2) [0..<?m]" using res[OF l2] c(5) by simp
  have "two_step_lookahead upd self ik ik2 (np_norm r2) (np_norm r1)"
    unfolding two_step_lookahead_def r1 r2 np_norm_rows
    using c(1,4) i2m mx fst by blast
  with c(6) show ?thesis by blast
qed

lemma two_step_lookahead_unique:
  assumes "two_step_lookahead upd self i i2 a b" and "two_step_lookahead upd self i i2' a' b'"
  shows "i2' = i2 \<and> a' = a \<and> b' = b"
proof -
  let ?m = "self_n_rows self"
  from assms(1) obtain x1 x2 where
    p: "upd (self_xk self) i = Inr x1" "i2 < ?m"
      "\<forall>j<?m. \<bar>row_residual self x1 j\<bar> \<le> \<bar>row_residual self x1 i2\<bar>"
      "\<forall>j<i2. \<bar>row_residual self x1 j\<bar> < \<bar>row_residual self x1 i2\<bar>"
      "upd x1 i2 = Inr x2"
      "b = sqrt (\<Sum>j\<leftarrow>[0..<?m]. (row_residual self x1 j)\<^sup>2)"
      "a = sqrt (\<Sum>j\<leftarrow>[0..<?m]. (row_residual self x2 j)\<^sup>2)"
    unfolding two_step_lookahead_def by blast
  from assms(2) obtain y1 y2 where
    q: "upd (self_xk self) i = Inr y1" "i2' < ?m"
      "\<forall>j<?m. \<bar>row_residual self y1 j\<bar> \<le> \<bar>row_residual self y1 i2'\<bar>"
      "\<forall>j<i2'. \<bar>row_residual self y1 j\<bar> < \<bar>row_residual self y1 i2'\<bar>"
      "upd y1 i2' = Inr y2"
      "b' = sqrt (\<Sum>j\<leftarrow>[0..<?m]. (row_residual self y1 j)\<^sup>2)"
      "a' = sqrt (\<Sum>j\<leftarrow>[0..<?m]. (row_residual self y2 j)\<^sup>2)"
    unfolding two_step_lookahead_def by blast
  have y1: "y1 = x1" using p(1) q(1) by simp
  have i: "i2' = i2"
  proof (rule ccontr)
    assume "i2' \<noteq> i2"
    then consider "i2' < i2" | "i2 < i2'" by arith
    then show False
    proof cases
      case 1
      with p(4) have "\<bar>row_residual self x1 i2'\<bar> < \<bar>row_residual self x1 i2\<bar>" by simp
      moreover from q(3) p(2) have "\<bar>row_residual self x1 i2\<bar> \<le> \<bar>row_residual self x1 i2'\<bar>"
        unfolding y1 by simp
      ultimately show False by simp
    next
      case 2
      with q(4) have "\<bar>row_residual self x1 i2\<bar> < \<bar>row_residual self x1 i2'\<bar>"
        unfolding y1 by simp
      moreover from p(3) q(2) have "\<bar>row_residual self x1 i2'\<bar> \<le> \<bar>row_residual self x1 i2\<bar>"
        by simp
      ultimately show False by simp
    qed
  qed
  have y2: "y2 = x2" using p(5) q(5) unfolding y1 i by simp
  show ?thesis using i p(6,7) q(6,7) unfolding y1 y2 by simp
qed

text \<open>
  Claim C3.  Let a Lookahead strategy with an empty cache be called on a well-shaped system
  with at least one row, the projection step returning a vector of the same dimension.
  The call returns a row \<open>best\<close>.  Its pair (residual norm after two steps, residual norm
  after one step), the second step being the greedy continuation \<open>ik2\<close> of the first, is
  lexicographically smallest among the pairs of all rows, and strictly smaller than the
  pair of every earlier row.  The cache then holds \<open>ik2\<close>, and the next call, whatever the
  iterate, the argument and the projection step then are, returns exactly \<open>ik2\<close> and
  empties the cache: it performs no search.
\<close>

theorem Lookahead_cache_is_second_step:
  assumes "self_next_i self = None" and "0 < self_n_rows self" and "Base_shapes self"
    and "\<forall>x j. length x = length (self_x0 self) \<and> j < self_n_rows self
                \<longrightarrow> (\<exists>x'. upd x j = Inr x' \<and> length x' = length x)"
  shows "\<exists>best ik2 a b.
           best < self_n_rows self
         \<and> two_step_lookahead upd self best ik2 a b
         \<and> (\<forall>j<self_n_rows self. \<exists>ik2' a' b'. two_step_lookahead upd self j ik2' a' b')
         \<and> (\<forall>j ik2' a' b'. j < self_n_rows self \<and> two_step_lookahead upd self j ik2' a' b'
               \<longrightarrow> (a < a' \<or> (a = a' \<and> b \<le> b'))
                 \<and> (j < best \<longrightarrow> a < a' \<or> (a = a' \<and> b < b')))
         \<and> Lookahead_select_row_index upd self xk
              = Inr (int best, self\<lparr>self_next_i := Some (int ik2)\<rparr>)
         \<and> (\<forall>upd' xk' x'.
               Lookahead_select_row_index upd' (self\<lparr>self_next_i := Some (int ik2), self_xk := x'\<rparr>) xk'
                 = Inr (int ik2, self\<lparr>self_next_i := None, self_xk := x'\<rparr>))
         \<and> (\<forall>upd' xk' other. self_next_i other = Some (int ik2) \<longrightarrow>
               Lookahead_select_row_index upd' other xk' = Inr (int ik2, other\<lparr>self_next_i := None\<rparr>))"
proof -
  let ?n = "self_n_rows self"
  note search = Lookahead_search_result[OF assms(1,2), of upd xk]
  have "\<exists>i self'. Lookahead_select_row_index upd self xk = Inr (i, self')"
    using search[THEN conjunct1] assms(3,4) by (rule mp[OF _ conjI])
  then obtain i self' where
    ret: "Lookahead_select_row_index upd self xk = Inr (i, self')"
    by (elim exE)
  from search[THEN conjunct2, rule_format, OF ret] obtain best ik2 key where
    b: "best < ?n" "i = int best" "Lookahead_candidate upd self best = Inr (ik2, key)"
    and all: "\<forall>j<?n. \<exists>ik2' key'. Lookahead_candidate upd self j = Inr (ik2', key')
                \<and> \<not> tuple_lt key' key \<and> (j < best \<longrightarrow> tuple_lt key key')"
    and s: "self' = self\<lparr>self_next_i := Some (int ik2)\<rparr>"
    by blast
  from Lookahead_candidate_spec[OF assms(3,4) b(1,3)] obtain a b where
    key: "key = (Num a, Num b)" and two: "two_step_lookahead upd self best ik2 a b"
    by blast
  have each: "\<exists>ik2' a' b'. two_step_lookahead upd self j ik2' a' b'
                \<and> (a < a' \<or> (a = a' \<and> b \<le> b'))
                \<and> (j < best \<longrightarrow> a < a' \<or> (a = a' \<and> b < b'))"
    if "j < ?n" for j
  proof -
    from all that obtain ik2' key' where
      c: "Lookahead_candidate upd self j = Inr (ik2', key')"
      and o: "\<not> tuple_lt key' key" "j < best \<longrightarrow> tuple_lt key key'"
      by blast
    from Lookahead_candidate_spec[OF assms(3,4) that c] obtain a' b' where
      key': "key' = (Num a', Num b')" and two': "two_step_lookahead upd self j ik2' a' b'"
      by blast
    have "a < a' \<or> (a = a' \<and> b \<le> b')"
      using o(1) unfolding key key' tuple_lt_Num by auto
    moreover have "j < best \<longrightarrow> a < a' \<or> (a = a' \<and> b < b')"
      using o(2) unfolding key key' tuple_lt_Num by auto
    ultimately show ?thesis using two' by blast
  qed
  have ex: "\<forall>j<?n. \<exists>ik2' a' b'. two_step_lookahead upd self j ik2' a' b'"
    using each by blast
  have smallest: "(a < a' \<or> (a = a' \<and> b \<le> b')) \<and> (j < best \<longrightarrow> a < a' \<or> (a = a' \<and> b < b'))"
    if "j < ?n \<and> two_step_lookahead upd self j ik2' a' b'" for j ik2' a' b'
  proof -
    from each that obtain i2 c d where
      t: "two_step_lookahead upd self j i2 c d"
      and o: "a < c \<or> (a = c \<and> b \<le> d)" "j < best \<longrightarrow> a < c \<or> (a = c \<and> b < d)"
      by blast
    from two_step_lookahead_unique[OF t] that have "a' = c" "b' = d" by blast+
    with o show ?thesis by simp
  qed
  have sel: "Lookahead_select_row_index upd self xk = Inr (int best, self\<lparr>self_next_i := Some (int ik2)\<rparr>)"
    using ret b(2) s by simp
  have nxt: "Lookahead_select_row_index upd' other xk' = Inr (int ik2, other\<lparr>self_next_i := None\<rparr>)"
    if "self_next_i other = Some (int ik2)" for upd' xk' other
    using that unfolding Lookahead_select_row_index_def by simp
  have nxt': "Lookahead_select_row_index upd' (self\<lparr>self_next_i := Some (int ik2), self_xk := x'\<rparr>) xk'
                 = Inr (int ik2, self\<lparr>self_next_i := None, self_xk := x'\<rparr>)" for upd' xk' x'
    using nxt[of "self\<lparr>self_next_i := Some (int ik2), self_xk := x'\<rparr>" upd' xk'] by simp
  have smallest': "\<forall>j ik2' a' b'. j < ?n \<and> two_step_lookahead upd self j ik2' a' b'
               \<longrightarrow> (a < a' \<or> (a = a' \<and> b \<le> b'))
                 \<and> (j < best \<longrightarrow> a < a' \<or> (a = a' \<and> b < b'))"
    using smallest by (intro allI impI)
  have nxt_all: "\<forall>upd' xk' other. self_next_i other = Some (int ik2) \<longrightarrow>
               Lookahead_select_row_index upd' other xk' = Inr (int ik2, other\<lparr>self_next_i := None\<rparr>)"
    using nxt by (intro allI impI)
  have nxt_all': "\<forall>upd' xk' x'.
               Lookahead_select_row_index upd' (self\<lparr>self_next_i := Some (int ik2), self_xk := x'\<rparr>) xk'
                 = Inr (int ik2, self\<lparr>self_next_i := None, self_xk := x'\<rparr>)"
    using nxt' by (intro allI)
  show ?thesis
    apply (rule exI[of _ best], rule exI[of _ ik2], rule exI[of _ a], rule exI[of _ b])
    apply (intro conjI)
          apply (rule b(1))
         apply (rule two)
        apply (rule ex)
       apply (rule smallest')
      apply (rule sel)
     apply (rule nxt_all')
    apply (rule nxt_all)
    done
qed

lemma unit_rows_two_step:
  "two_step_lookahead (update_iterate unit_rows) (Lookahead_init unit_rows) 1 0 0 1"
proof -
  have n: "[0..<self_n_rows (Lookahead_init unit_rows)] = [0, Suc 0]"
    by (simp add: unit_rows_fields eval_nat_numeral)
  have r: "row_residual (Lookahead_init unit_rows) [0, 2] 0 = 1"
    "row_residual (Lookahead_init unit_rows) [0, 2] (Suc 0) = 0"
    "row_residual (Lookahead_init unit_rows) [1, 2] 0 = 0"
    "row_residual (Lookahead_init unit_rows) [1, 2] (Suc 0) = 0"
    by (simp_all add: row_residual_def unit_rows_fields row_dot_def)
  have lt2: "j < 2 \<longleftrightarrow> j = 0 \<or> j = Suc 0" for j :: nat by auto
  show ?thesis
    unfolding two_step_lookahead_def n
    by (intro exI[of _ "[0, 2]"] exI[of _ "[1, 2]"])
       (auto simp: unit_rows_fields unit_rows_update r lt2)
qed

theorem Lookahead_cache_is_second_step_witness:
  "self_next_i (Lookahead_init unit_rows) = None \<and> 0 < self_n_rows (Lookahead_init unit_rows) \<and>
   Base_shapes (Lookahead_init unit_rows) \<and>
   two_step_lookahead (update_iterate unit_rows) (Lookahead_init unit_rows) 0 1 0 2 \<and>
   two_step_lookahead (update_iterate unit_rows) (Lookahead_init unit_rows) 1 0 0 1 \<and>
   Lookahead_select_row_index (update_iterate unit_rows) (Lookahead_init unit_rows) [0, 0]
     = Inr (1, (Lookahead_init unit_rows)\<lparr>self_next_i := Some 0\<rparr>) \<and>
   Lookahead_select_row_index (update_iterate unit_rows)
       ((Lookahead_init unit_rows)\<lparr>self_next_i := Some 0, self_xk := [0, 2]\<rparr>) [0, 2]
     = Inr (0, (Lookahead_init unit_rows)\<lparr>self_next_i := None, self_xk := [0, 2]\<rparr>)"
proof -
  let ?L = "Lookahead_init unit_rows"
  let ?U = "update_iterate unit_rows"
  have h: "self_next_i ?L = None" "0 < self_n_rows ?L" "Base_shapes ?L"
    by (simp_all add: unit_rows_fields Base_shapes_def)
  have ok: "\<forall>x j. length x = length (self_x0 ?L) \<and> j < self_n_rows ?L
                \<longrightarrow> (\<exists>x'. ?U x j = Inr x' \<and> length x' = length x)"
    using update_iterate_unit_rows_ok by blast
  from Lookahead_cache_is_second_step[OF h ok, of "[0, 0]"] obtain best ik2 a b where
    two: "two_step_lookahead ?U ?L best ik2 a b"
    and sel: "Lookahead_select_row_index ?U ?L [0, 0] = Inr (int best, ?L\<lparr>self_next_i := Some (int ik2)\<rparr>)"
    and nxt: "\<forall>upd' xk' x'.
               Lookahead_select_row_index upd' (?L\<lparr>self_next_i := Some (int ik2), self_xk := x'\<rparr>) xk'
                 = Inr (int ik2, ?L\<lparr>self_next_i := None, self_xk := x'\<rparr>)"
    by blast
  from sel unit_rows_search have best: "int best = 1"
    and "?L\<lparr>self_next_i := Some (int ik2)\<rparr> = ?L\<lparr>self_next_i := Some 0\<rparr>"
    by simp_all
  then have "self_next_i (?L\<lparr>self_next_i := Some (int ik2)\<rparr>) = self_next_i (?L\<lparr>self_next_i := Some 0\<rparr>)"
    by simp
  then have ik2: "int ik2 = 0" by simp
  have b1: "best = 1" and i0: "ik2 = 0" using best ik2 by simp_all
  from two_step_lookahead_unique[OF unit_rows_two_step, of ik2 a b] two
  have ab: "a = 0" "b = 1" unfolding b1 by blast+
  have t1: "two_step_lookahead ?U ?L 1 0 0 1" using two unfolding b1 i0 ab .
  have t0: "two_step_lookahead ?U ?L 0 1 0 2"
  proof -
    have n: "[0..<self_n_rows ?L] = [0, Suc 0]"
      by (simp add: unit_rows_fields eval_nat_numeral)
    have r: "row_residual ?L [1, 0] 0 = 0" "row_residual ?L [1, 0] (Suc 0) = 2"
      "row_residual ?L [1, 2] 0 = 0" "row_residual ?L [1, 2] (Suc 0) = 0"
      by (simp_all add: row_residual_def unit_rows_fields row_dot_def)
    have lt2: "j < 2 \<longleftrightarrow> j = 0 \<or> j = Suc 0" for j :: nat by auto
    show ?thesis
      unfolding two_step_lookahead_def n
      by (intro exI[of _ "[1, 0]"] exI[of _ "[1, 2]"])
         (auto simp: unit_rows_fields unit_rows_update r lt2)
  qed
  have second: "Lookahead_select_row_index ?U (?L\<lparr>self_next_i := Some 0, self_xk := [0, 2]\<rparr>) [0, 2]
     = Inr (0, ?L\<lparr>self_next_i := None, self_xk := [0, 2]\<rparr>)"
    using nxt[rule_format, of ?U "[0, 2]" "[0, 2]"] unfolding ik2 .
  show ?thesis
    using h t0 t1 unit_rows_search second by simp
qed


end
